theory Spec2Isabelle
  imports Main "HOL-Library.Sublist"
begin

section \<open>Bourbon: middleware pipeline, session store and content rewriter\<close>

text \<open>
  A shallow embedding of three JavaScript classes of the repository:
  \<^verbatim>\<open>AdvancedMiddleware\<close> (lib/advanced-middleware.js), \<^verbatim>\<open>SessionManager\<close> and
  \<^verbatim>\<open>EnhancedRewriter\<close>.

  Conventions of the embedding.
  \<^item> A JavaScript string is an Isabelle \<open>string\<close>. ASCII text is represented character
    for character; text beyond ASCII is read as its UTF-8 bytes, which is the form
    \<^verbatim>\<open>encodeURIComponent\<close> works on.
  \<^item> Timestamps (\<^verbatim>\<open>Date.now()\<close>) are integers, in milliseconds, and are passed in: a
    function that reads the clock takes the reading as an argument.
  \<^item> A thrown exception is a value: a function that can throw returns the exception next
    to, or instead of, its result.
  \<^item> Mutation is state passing: a method that mutates a map takes it and returns it.
\<close>

subsection \<open>Errors\<close>

text \<open>An \<^verbatim>\<open>Error\<close> object: its message and the optional \<^verbatim>\<open>statusCode\<close> property.\<close>

record js_error =
  message :: string
  statusCode :: "nat option"

subsection \<open>Middleware: the rate limiter\<close>

text \<open>
  The part of the incoming request the rate limiter reads:
  \<^verbatim>\<open>request.connection?.remoteAddress\<close> and \<^verbatim>\<open>request.headers['x-forwarded-for']\<close>;
  \<open>None\<close> is \<^verbatim>\<open>undefined\<close>.
\<close>

record request =
  remoteAddress :: "string option"
  x_forwarded_for :: "string option"

text \<open>The middleware context; further properties live in the record's extension.\<close>

record mw_context =
  ctx_request :: "request option"
  ctx_error :: "js_error option"

record rate_limit_options =
  windowMs :: int
  maxRequests :: nat
  skipSuccessfulRequests :: bool

text \<open>JavaScript's \<^verbatim>\<open>a || b\<close> on optional strings: \<^verbatim>\<open>undefined\<close> and \<^verbatim>\<open>''\<close> are falsy.\<close>

fun or_else :: "string option \<Rightarrow> string \<Rightarrow> string" where
  "or_else None d = d"
| "or_else (Some s) d = (if s = [] then d else s)"

definition clientIP :: "request \<Rightarrow> string" where
  "clientIP r = or_else (remoteAddress r) (or_else (x_forwarded_for r) ''unknown'')"

definition rate_limit_exceeded :: js_error where
  "rate_limit_exceeded = \<lparr>message = ''Rate limit exceeded'', statusCode = Some 429\<rparr>"

text \<open>
  The closure's \<^verbatim>\<open>requests\<close> map: client address to the array of recorded timestamps.
\<close>

type_synonym rate_state = "string \<rightharpoonup> int list"

text \<open>
  One call of the handler returned by \<^verbatim>\<open>rateLimiter(options)\<close>, at clock reading \<open>now\<close>.
  The result is the exception thrown, if any, and the map as the call leaves it: the
  entry is created and pruned before the limit is tested, and the timestamp is pushed
  only after the test.
\<close>

definition rateLimiter ::
  "rate_limit_options \<Rightarrow> 'a mw_context_scheme \<Rightarrow> int \<Rightarrow> rate_state \<Rightarrow> js_error option \<times> rate_state"
where
  "rateLimiter opts ctx now requests =
     (case ctx_request ctx of
        None \<Rightarrow> (None, requests)
      | Some req \<Rightarrow>
          let ip = clientIP req;
              windowStart = now - windowMs opts;
              stored = (case requests ip of None \<Rightarrow> [] | Some ts \<Rightarrow> ts);
              clientRequests = dropWhile (\<lambda>t. t < windowStart) stored
          in if length clientRequests \<ge> maxRequests opts
             then (Some rate_limit_exceeded, requests(ip \<mapsto> clientRequests))
             else (None, requests(ip \<mapsto> clientRequests @ [now])))"

text \<open>
  A sequence of calls, each with its context and clock reading: the exceptions thrown, in
  order, and the final map.
\<close>

fun serve :: "rate_limit_options \<Rightarrow> ('a mw_context_scheme \<times> int) list \<Rightarrow> rate_state
    \<Rightarrow> js_error option list \<times> rate_state" where
  "serve opts [] requests = ([], requests)"
| "serve opts ((ctx, now) # rest) requests =
     (let (e, requests') = rateLimiter opts ctx now requests;
          (es, final) = serve opts rest requests'
      in (e # es, final))"

subsection \<open>Session store: data\<close>

text \<open>
  A JavaScript \<^verbatim>\<open>Map\<close> iterates in insertion order and holds each key once: it is the
  list of its entries, in that order. \<^verbatim>\<open>set\<close> replaces the value of a key in place and
  appends a new key at the end; \<^verbatim>\<open>delete\<close> removes the key's entry; \<^verbatim>\<open>new Map(entries)\<close>
  sets the entries one after the other.
\<close>

type_synonym ('k, 'v) js_map = "('k \<times> 'v) list"



definition Map_delete :: "'k \<Rightarrow> ('k, 'v) js_map \<Rightarrow> ('k, 'v) js_map" where
  "Map_delete k m = filter (\<lambda>e. fst e \<noteq> k) m"


record cookie =
  cookie_value :: string
  cookie_domain :: string
  cookie_path :: string
  cookie_expires :: "int option"
  httpOnly :: bool
  secure :: bool
  sameSite :: string

text \<open>
  \<^verbatim>\<open>session.data\<close>. The two scalars are a string or \<^verbatim>\<open>null\<close> (\<open>None\<close>); \<^verbatim>\<open>headers\<close> and
  \<^verbatim>\<open>settings\<close> are plain objects, that is, their own properties in insertion order.
\<close>

record session_data =
  cookies :: "(string, cookie) js_map"
  localStorage :: "(string, string) js_map"
  sessionStorage :: "(string, string) js_map"
  customProxy :: "string option"
  userAgent :: "string option"
  headers :: "(string \<times> string) list"
  settings :: "(string \<times> bool) list"

record session =
  session_id :: string
  createdAt :: int
  lastAccessed :: int
  data :: session_data

text \<open>The fields of a \<^verbatim>\<open>SessionManager\<close> that its methods read and write.\<close>

record session_manager =
  sessions :: "(string, session) js_map"
  maxSessions :: nat
  sessionTimeout :: int

subsection \<open>Session store: the eviction sweep\<close>

text \<open>
  \<^verbatim>\<open>cleanupOldSessions()\<close> at clock reading \<open>now\<close>. The ids of the stale sessions are
  collected and then deleted; if the map is still over capacity, its entries are sorted
  by \<^verbatim>\<open>lastAccessed\<close> (\<^verbatim>\<open>Array.prototype.sort\<close> is stable, as \<open>sort_key\<close> is) and the
  first \<^verbatim>\<open>excess\<close> of them are deleted.
\<close>

definition cleanupOldSessions :: "int \<Rightarrow> session_manager \<Rightarrow> session_manager" where
  "cleanupOldSessions now m =
     (let toDelete = map fst (filter (\<lambda>e. now - lastAccessed (snd e) > sessionTimeout m) (sessions m));
          live = fold Map_delete toDelete (sessions m)
      in if length live > maxSessions m
         then
           let sortedSessions = sort_key (\<lambda>e. lastAccessed (snd e)) live;
               excess = length live - maxSessions m
           in m\<lparr>sessions := fold Map_delete (map fst (take excess sortedSessions)) live\<rparr>
         else m\<lparr>sessions := live\<rparr>)"

text \<open>A session with the given id and access time and no data, for the examples.\<close>

definition sample_session :: "string \<Rightarrow> int \<Rightarrow> session" where
  "sample_session sid t =
     \<lparr>session_id = sid, createdAt = t, lastAccessed = t,
      data = \<lparr>cookies = [], localStorage = [], sessionStorage = [], customProxy = None,
              userAgent = None, headers = [], settings = []\<rparr>\<rparr>"

subsection \<open>Middleware: the pipeline\<close>

text \<open>
  The three phases, the keys of \<^verbatim>\<open>this.middlewares\<close>. A handler is called with the context
  object; it may mutate the context's own properties, mutate what the context and its
  closure refer to (the world \<open>'w\<close>: request, response, maps held by the handler), and
  throw. Its model returns the exception thrown, if any, and the context and the world as
  it leaves them. (A \<^verbatim>\<open>type\<close> that is none of the three keys is no phase: \<^verbatim>\<open>execute\<close> then
  throws before any handler runs.)
\<close>

datatype phase = Request | Response | Error

type_synonym ('c, 'w) handler =
  "'c mw_context_scheme \<Rightarrow> 'w \<Rightarrow> js_error option \<times> 'c mw_context_scheme \<times> 'w"

record ('c, 'w) middlewares =
  mw_request :: "('c, 'w) handler list"
  mw_response :: "('c, 'w) handler list"
  mw_error :: "('c, 'w) handler list"


text \<open>
  What a call of \<^verbatim>\<open>execute\<close> leaves behind: the exception it throws (\<open>None\<close>: it returns),
  the caller's context object and the world afterwards, and the contexts with which it
  called \<^verbatim>\<open>this.execute('error', ...)\<close>, in order.
\<close>

record ('c, 'w) outcome =
  thrown :: "js_error option"
  ctx_after :: "'c mw_context_scheme"
  world_after :: 'w
  error_calls :: "'c mw_context_scheme list"

text \<open>
  The \<^verbatim>\<open>for\<close> loop of \<^verbatim>\<open>execute(type, context)\<close> over the handlers still to run. In the
  \<^verbatim>\<open>catch\<close> block the error phase runs on the shallow copy \<^verbatim>\<open>{ ...context, error }\<close>; an
  exception of that call leaves the \<^verbatim>\<open>catch\<close> block at once, otherwise the caught error is
  thrown again.
\<close>

function execute_loop ::
  "('c, 'w) middlewares \<Rightarrow> phase \<Rightarrow> ('c, 'w) handler list \<Rightarrow> 'c mw_context_scheme \<Rightarrow> 'w
    \<Rightarrow> ('c, 'w) outcome"
where
  "execute_loop M ty [] ctx w =
     \<lparr>thrown = None, ctx_after = ctx, world_after = w, error_calls = []\<rparr>"
| "execute_loop M ty (h # hs) ctx w =
     (case h ctx w of
        (None, ctx', w') \<Rightarrow> execute_loop M ty hs ctx' w'
      | (Some err, ctx', w') \<Rightarrow>
          if ty \<noteq> Error
          then
            let copy = ctx'\<lparr>ctx_error := Some err\<rparr>;
                r = execute_loop M Error (mw_error M) copy w'
            in (case thrown r of
                  Some later \<Rightarrow>
                    \<lparr>thrown = Some later, ctx_after = ctx', world_after = world_after r,
                     error_calls = copy # error_calls r\<rparr>
                | None \<Rightarrow>
                    \<lparr>thrown = Some err, ctx_after = ctx', world_after = world_after r,
                     error_calls = copy # error_calls r\<rparr>)
          else \<lparr>thrown = Some err, ctx_after = ctx', world_after = w', error_calls = []\<rparr>)"
  by pat_completeness auto
termination
  by (relation "measure (\<lambda>(M, ty, hs, ctx, w).
        (if ty = Error then 0 else Suc (length (mw_error M))) + length hs)") auto


text \<open>
  The first handler of a chain that throws, when the handlers run in order on the
  context and world their predecessors left: its exception, and the context and the
  world at the throw. \<open>None\<close> when every handler returns.
\<close>

fun first_failure ::
  "('c, 'w) handler list \<Rightarrow> 'c mw_context_scheme \<Rightarrow> 'w
    \<Rightarrow> (js_error \<times> 'c mw_context_scheme \<times> 'w) option" where
  "first_failure [] ctx w = None"
| "first_failure (h # hs) ctx w =
     (case h ctx w of
        (None, ctx', w') \<Rightarrow> first_failure hs ctx' w'
      | (Some err, ctx', w') \<Rightarrow> Some (err, ctx', w'))"


subsection \<open>Session store: create, get, update\<close>












subsection \<open>Session store: export and import\<close>








subsection \<open>Rewriter: values, strings and the platform\<close>

text \<open>
  The JavaScript values the rewriter's arguments range over. Numbers are the integers
  (the only numbers the code computes are match offsets); \<open>JObject\<close> is any object
  other than a string (an array, a \<^verbatim>\<open>Buffer\<close>), with no \<^verbatim>\<open>replace\<close> method.
\<close>

datatype js_value = JUndefined | JNull | JBool bool | JNumber int | JString string | JObject

fun truthy :: "js_value \<Rightarrow> bool" where
  "truthy JUndefined = False"
| "truthy JNull = False"
| "truthy (JBool b) = b"
| "truthy (JNumber n) = (n \<noteq> 0)"
| "truthy (JString s) = (s \<noteq> [])"
| "truthy JObject = True"

fun digit_char :: "nat \<Rightarrow> char" where
  "digit_char n = ''0123456789ABCDEF'' ! (n mod 16)"

function show_nat :: "nat \<Rightarrow> string" where
  "show_nat n = (if n < 10 then [digit_char n] else show_nat (n div 10) @ [digit_char (n mod 10)])"
  by pat_completeness auto
termination
  by (relation "measure id") auto

text \<open>\<^verbatim>\<open>String(v)\<close>, as a template literal applies it to an interpolated value.\<close>

fun to_string :: "js_value \<Rightarrow> string" where
  "to_string JUndefined = ''undefined''"
| "to_string JNull = ''null''"
| "to_string (JBool b) = (if b then ''true'' else ''false'')"
| "to_string (JNumber n) = (if n < 0 then CHR ''-'' # show_nat (nat (- n)) else show_nat (nat n))"
| "to_string (JString s) = s"
| "to_string JObject = ''[object Object]''"

text \<open>\<^verbatim>\<open>s.startsWith(p)\<close> and \<^verbatim>\<open>s.includes(p)\<close>.\<close>

fun startsWith :: "string \<Rightarrow> string \<Rightarrow> bool" where
  "startsWith s [] = True"
| "startsWith [] (p # ps) = False"
| "startsWith (c # cs) (p # ps) = (c = p \<and> startsWith cs ps)"

fun js_includes :: "string \<Rightarrow> string \<Rightarrow> bool" where
  "js_includes [] p = (p = [])"
| "js_includes (c # cs) p = (startsWith (c # cs) p \<or> js_includes cs p)"

text \<open>
  \<^verbatim>\<open>encodeURIComponent\<close>: the characters \<^verbatim>\<open>A-Z a-z 0-9 - _ . ! ~ * ' ( )\<close> stand for
  themselves, every other byte of the UTF-8 form becomes \<^verbatim>\<open>%XX\<close> in upper-case hex. (A
  string with a lone surrogate has no UTF-8 form; there the function throws, and such
  strings are not values of the model.)
\<close>

definition uriUnreserved :: "char \<Rightarrow> bool" where
  "uriUnreserved c \<longleftrightarrow>
     c \<in> set (''ABCDEFGHIJKLMNOPQRSTUVWXYZabcdefghijklmnopqrstuvwxyz0123456789-_.!~*()'' @ [CHR 0x27])"

definition percent_byte :: "char \<Rightarrow> string" where
  "percent_byte c = [CHR ''%'', digit_char (of_char c div 16), digit_char (of_char c mod 16)]"

definition encodeURIComponent :: "string \<Rightarrow> string" where
  "encodeURIComponent s = concat (map (\<lambda>c. if uriUnreserved c then [c] else percent_byte c) s)"

text \<open>
  Percent-decoding, as the receiver of a gateway URL applies it to the \<^verbatim>\<open>url\<close> parameter:
  \<^verbatim>\<open>%XX\<close> is the byte with hex value \<^verbatim>\<open>XX\<close>; a \<^verbatim>\<open>%\<close> not followed by two hex digits is
  refused.
\<close>

definition hex_value :: "char \<Rightarrow> nat option" where
  "hex_value c =
     (if c \<in> set ''0123456789'' then Some (of_char c - 48)
      else if c \<in> set ''ABCDEF'' then Some (of_char c - 55)
      else if c \<in> set ''abcdef'' then Some (of_char c - 87)
      else None)"

fun percent_decode :: "string \<Rightarrow> string option" where
  "percent_decode [] = Some []"
| "percent_decode [c] = (if c = CHR ''%'' then None else Some [c])"
| "percent_decode [c, h] =
     (if c = CHR ''%'' then None else map_option ((#) c) (percent_decode [h]))"
| "percent_decode (c # h # l # rest) =
     (if c = CHR ''%''
      then (case (hex_value h, hex_value l) of
              (Some a, Some b) \<Rightarrow> map_option ((#) (char_of (16 * a + b))) (percent_decode rest)
            | _ \<Rightarrow> None)
      else map_option ((#) c) (percent_decode (h # l # rest)))"

text \<open>
  The platform's \<^verbatim>\<open>URL\<close>, \<^verbatim>\<open>JSON\<close> and document libraries are not code of the repository:
  the rewriter takes them as a parameter. A parsed \<^verbatim>\<open>URL\<close> object is the four properties
  the code reads.
\<close>

record url =
  protocol :: string
  host :: string
  hostname :: string
  href :: string

datatype json =
    JsonNull
  | JsonBool bool
  | JsonNumber int
  | JsonString string
  | JsonArray "json list"
  | JsonObject "(string \<times> json) list"

text \<open>The fields of an \<^verbatim>\<open>EnhancedRewriter\<close> that string rewriting reads.\<close>

record rewriter =
  proxyUrl :: string
  enableMinification :: bool
  blockedDomains :: "string list"

text \<open>The \<^verbatim>\<open>options\<close> object of a rewrite call, destructured; \<open>None\<close> is \<^verbatim>\<open>undefined\<close>.\<close>

record rewrite_options =
  sessionId :: "string option"
  targetUrl :: "string option"

text \<open>
  \<^item> \<open>URL_parse s\<close> is \<^verbatim>\<open>new URL(s)\<close>, \<open>None\<close> when it throws;
  \<^item> \<open>URL_resolve s base\<close> is \<^verbatim>\<open>new URL(s, base)\<close>;
  \<^item> \<open>URL_set_param u k v\<close> is \<^verbatim>\<open>u.href\<close> after \<^verbatim>\<open>u.searchParams.set(k, v)\<close>;
  \<^item> \<open>JSON_parse v\<close> is \<^verbatim>\<open>JSON.parse(v)\<close>, \<open>None\<close> when it throws;
  \<^item> \<open>object_includes p\<close> is \<^verbatim>\<open>contentType.includes(p)\<close> for a content type that is an
    object: what it returns, or the exception;
  \<^item> \<open>document_pipeline\<close> is the body of the \<^verbatim>\<open>try\<close> block of \<^verbatim>\<open>rewriteHTML\<close>, which runs on
    the jsdom document: the serialized result, or the exception.
\<close>

record platform =
  URL_parse :: "string \<Rightarrow> url option"
  URL_resolve :: "string \<Rightarrow> url \<Rightarrow> url option"
  URL_set_param :: "url \<Rightarrow> string \<Rightarrow> string \<Rightarrow> string"
  JSON_parse :: "js_value \<Rightarrow> json option"
  JSON_stringify :: "json \<Rightarrow> string"
  object_includes :: "string \<Rightarrow> js_error + bool"
  document_pipeline :: "rewriter \<Rightarrow> js_value \<Rightarrow> rewrite_options \<Rightarrow> js_error + js_value"

text \<open>\<^verbatim>\<open>new URL(targetUrl)\<close> for a target that may be \<^verbatim>\<open>undefined\<close>.\<close>

fun new_URL :: "platform \<Rightarrow> string option \<Rightarrow> url option" where
  "new_URL env None = None"
| "new_URL env (Some s) = URL_parse env s"

subsection \<open>Rewriter: one URL\<close>

text \<open>
  The first statement of the \<^verbatim>\<open>try\<close> block of \<^verbatim>\<open>rewriteURL\<close>, for a non-empty string: the
  URL made absolute, or an early \<^verbatim>\<open>return url\<close> (\<open>Skipped\<close>), or an exception (\<open>Failed\<close>).
\<close>

datatype resolution = Resolved string | Skipped | Failed

definition resolve_relative :: "platform \<Rightarrow> string \<Rightarrow> string option \<Rightarrow> resolution" where
  "resolve_relative env url target =
     (if startsWith url ''/'' then
        (case new_URL env target of
           None \<Rightarrow> Failed
         | Some baseUrl \<Rightarrow> Resolved (protocol baseUrl @ ''//'' @ host baseUrl @ url))
      else if startsWith url ''./'' \<or> startsWith url ''../'' then
        (case new_URL env target of
           None \<Rightarrow> Failed
         | Some baseUrl \<Rightarrow>
             (case URL_resolve env url baseUrl of
                None \<Rightarrow> Failed
              | Some u \<Rightarrow> Resolved (href u)))
      else if \<not> startsWith url ''http'' then Skipped
      else Resolved url)"

text \<open>
  The rest of the \<^verbatim>\<open>try\<close> block, on the absolute URL: the block list, then the gateway
  form. An exception of \<^verbatim>\<open>new URL(url)\<close> is caught and \<^verbatim>\<open>url\<close> returned.
\<close>

definition to_gateway :: "platform \<Rightarrow> rewriter \<Rightarrow> string \<Rightarrow> string" where
  "to_gateway env this url =
     (case URL_parse env url of
        None \<Rightarrow> url
      | Some urlObj \<Rightarrow>
          if list_ex (\<lambda>domain. js_includes (hostname urlObj) domain) (blockedDomains this)
          then url
          else proxyUrl this @ ''/api/gateway?url='' @ encodeURIComponent url)"

definition rewriteURL :: "platform \<Rightarrow> rewriter \<Rightarrow> js_value \<Rightarrow> string option \<Rightarrow> js_value" where
  "rewriteURL env this url target =
     (case url of
        JString s \<Rightarrow>
          if s = [] then url
          else (case resolve_relative env s target of
                  Failed \<Rightarrow> url
                | Skipped \<Rightarrow> url
                | Resolved absolute \<Rightarrow> JString (to_gateway env this absolute))
      | _ \<Rightarrow> url)"

text \<open>The absolute URL that \<^verbatim>\<open>rewriteURL\<close> goes on with: the input itself unless it was resolved.\<close>

definition resolved_url :: "platform \<Rightarrow> string \<Rightarrow> string option \<Rightarrow> string" where
  "resolved_url env url target =
     (case resolve_relative env url target of Resolved absolute \<Rightarrow> absolute | _ \<Rightarrow> url)"

definition isURL :: "platform \<Rightarrow> string \<Rightarrow> bool" where
  "isURL env str = (URL_parse env str \<noteq> None)"

text \<open>
  The characters that end or split a query parameter; an encoded component has none.
\<close>

definition query_safe :: "char \<Rightarrow> bool" where
  "query_safe c \<longleftrightarrow> c \<notin> set ''&=#+?/ ''"

text \<open>
  What \<^verbatim>\<open>new URL(s)\<close> returns for the plainest absolute URLs, for the examples:
  \<^verbatim>\<open>http://\<close> or \<^verbatim>\<open>https://\<close>, a host of lower-case letters and single dots, and a path of
  letters, digits and \<^verbatim>\<open>/ . _ -\<close> without dot segments. On such a string the platform's
  parser returns these properties; every other string is refused here (the platform
  refuses a string with no scheme, and accepts more than this elsewhere).
\<close>

definition simple_URL :: "string \<Rightarrow> url option" where
  "simple_URL s =
     (let scheme = (if startsWith s ''https://'' then ''https:''
                    else if startsWith s ''http://'' then ''http:'' else []);
          rest = drop (length scheme + 2) s;
          h = takeWhile (\<lambda>c. c \<noteq> CHR ''/'') rest;
          path = dropWhile (\<lambda>c. c \<noteq> CHR ''/'') rest
      in if scheme \<noteq> [] \<and> h \<noteq> []
            \<and> list_all (\<lambda>c. c \<in> set ''abcdefghijklmnopqrstuvwxyz.'') h
            \<and> hd h \<noteq> CHR ''.'' \<and> last h \<noteq> CHR ''.'' \<and> \<not> js_includes h ''..''
            \<and> list_all (\<lambda>c. c \<in> set
                  ''ABCDEFGHIJKLMNOPQRSTUVWXYZabcdefghijklmnopqrstuvwxyz0123456789/._-'') path
            \<and> \<not> js_includes path ''/.''
         then Some \<lparr>protocol = scheme, host = h, hostname = h,
                     href = scheme @ ''//'' @ h @ (if path = [] then ''/'' else path)\<rparr>
         else None)"

subsection \<open>Rewriter: regular expressions\<close>

text \<open>
  The regular expressions of the source use literals, character classes, the quantifiers
  \<^verbatim>\<open>?\<close>, \<^verbatim>\<open>*\<close> and \<^verbatim>\<open>+\<close> on a class, and capture groups. The classes \<^verbatim>\<open>[...]\<close> and \<^verbatim>\<open>[^...]\<close>
  of the source list ASCII characters; on the UTF-8 form of the text they take one byte,
  so that \<^verbatim>\<open>[^...]+\<close> runs over a character beyond ASCII byte by byte. \<^verbatim>\<open>\s\<close> is \<open>Space\<close>: it
  takes one white-space character, in its UTF-8 form. \<open>white_space\<close> lists the characters
  that \<^verbatim>\<open>\s\<close> matches: TAB, LF, VT, FF, CR, the space, U+00A0, U+1680, U+2000 to U+200A,
  U+2028, U+2029, U+202F, U+205F, U+3000 and U+FEFF.
\<close>

datatype char_class = AnyOf string | NoneOf string | Space

definition white_space :: "string list" where
  "white_space =
     [[CHR 0x09], [CHR 0x0A], [CHR 0x0B], [CHR 0x0C], [CHR 0x0D], [CHR 0x20],
      [CHR 0xC2, CHR 0xA0],
      [CHR 0xE1, CHR 0x9A, CHR 0x80],
      [CHR 0xE2, CHR 0x80, CHR 0x80], [CHR 0xE2, CHR 0x80, CHR 0x81],
      [CHR 0xE2, CHR 0x80, CHR 0x82], [CHR 0xE2, CHR 0x80, CHR 0x83],
      [CHR 0xE2, CHR 0x80, CHR 0x84], [CHR 0xE2, CHR 0x80, CHR 0x85],
      [CHR 0xE2, CHR 0x80, CHR 0x86], [CHR 0xE2, CHR 0x80, CHR 0x87],
      [CHR 0xE2, CHR 0x80, CHR 0x88], [CHR 0xE2, CHR 0x80, CHR 0x89],
      [CHR 0xE2, CHR 0x80, CHR 0x8A],
      [CHR 0xE2, CHR 0x80, CHR 0xA8], [CHR 0xE2, CHR 0x80, CHR 0xA9],
      [CHR 0xE2, CHR 0x80, CHR 0xAF],
      [CHR 0xE2, CHR 0x81, CHR 0x9F],
      [CHR 0xE3, CHR 0x80, CHR 0x80],
      [CHR 0xEF, CHR 0xBB, CHR 0xBF]]"

text \<open>The text after one character of the class, when the text starts with one.\<close>

fun take_class :: "char_class \<Rightarrow> string \<Rightarrow> string option" where
  "take_class (AnyOf cs) s =
     (case s of [] \<Rightarrow> None | x # xs \<Rightarrow> if x \<in> set cs then Some xs else None)"
| "take_class (NoneOf cs) s =
     (case s of [] \<Rightarrow> None | x # xs \<Rightarrow> if x \<notin> set cs then Some xs else None)"
| "take_class Space s =
     (case find (startsWith s) white_space of
        None \<Rightarrow> None
      | Some w \<Rightarrow> Some (drop (length w) s))"

datatype atom =
    Lit string
  | One char_class
  | Opt char_class
  | Star char_class
  | Plus char_class
  | Group_open
  | Group_close

text \<open>
  A match of the pattern at the start of the text, as a backtracking matcher finds it: a
  quantifier takes as much as it can and gives back one character at a time while the
  rest of the pattern fails. The result is the captured groups and the text after the
  match. \<open>opens\<close> is the text at each group's opening parenthesis.
\<close>

function rx_match :: "atom list \<Rightarrow> string \<Rightarrow> string list \<Rightarrow> string list \<Rightarrow> (string list \<times> string) option" where
  "rx_match [] s opens caps = Some (caps, s)"
| "rx_match (Lit l # r) s opens caps =
     (if startsWith s l then rx_match r (drop (length l) s) opens caps else None)"
| "rx_match (One c # r) s opens caps =
     (case take_class c s of
        None \<Rightarrow> None
      | Some xs \<Rightarrow> rx_match r xs opens caps)"
| "rx_match (Opt c # r) s opens caps =
     (case take_class c s of
        None \<Rightarrow> rx_match r s opens caps
      | Some xs \<Rightarrow>
          (case rx_match r xs opens caps of
             Some m \<Rightarrow> Some m
           | None \<Rightarrow> rx_match r s opens caps))"
| "rx_match (Star c # r) s opens caps =
     (case take_class c s of
        None \<Rightarrow> rx_match r s opens caps
      | Some xs \<Rightarrow>
          (case rx_match (Star c # r) xs opens caps of
             Some m \<Rightarrow> Some m
           | None \<Rightarrow> rx_match r s opens caps))"
| "rx_match (Plus c # r) s opens caps =
     (case take_class c s of
        None \<Rightarrow> None
      | Some xs \<Rightarrow> rx_match (Star c # r) xs opens caps)"
| "rx_match (Group_open # r) s opens caps = rx_match r s (s # opens) caps"
| "rx_match (Group_close # r) s opens caps =
     (case opens of
        [] \<Rightarrow> None
      | start # outer \<Rightarrow> rx_match r s outer (caps @ [take (length start - length s) start]))"
  by pat_completeness auto
termination
proof -
  have shorter: "length xs < length s" if "take_class c s = Some xs" for c s xs
  proof (cases c)
    case Space
    with that obtain w where w: "find (startsWith s) white_space = Some w"
      and xs: "xs = drop (length w) s"
      by (auto split: option.splits)
    from w have "w \<in> set white_space" and "startsWith s w"
      by (auto simp: find_Some_iff)
    then have "w \<noteq> []" and "s \<noteq> []"
      by (auto simp: white_space_def)
    with xs show ?thesis by simp
  qed (use that in \<open>auto split: list.splits if_splits\<close>)
  show ?thesis
    by (relation "measures [\<lambda>(r, s, opens, caps). length r, \<lambda>(r, s, opens, caps). length s]")
       (auto dest: shorter)
qed

text \<open>The first group as the replacement callback receives it.\<close>

fun first_group :: "string list \<Rightarrow> js_value" where
  "first_group [] = JUndefined"
| "first_group (p # ps) = JString p"

text \<open>
  \<^verbatim>\<open>s.replace(/pattern/g, callback)\<close>, from \<open>offset\<close> on: the text is scanned left to right,
  each match is replaced by what the callback returns for the matched text, the first
  group and the offset of the match, and the scan goes on after the match (one character
  further after an empty match).
\<close>

function replace_all ::
  "atom list \<Rightarrow> (string \<Rightarrow> js_value \<Rightarrow> nat \<Rightarrow> string) \<Rightarrow> nat \<Rightarrow> string \<Rightarrow> string" where
  "replace_all rx f offset s =
     (case rx_match rx s [] [] of
        None \<Rightarrow>
          (case s of [] \<Rightarrow> [] | c # cs \<Rightarrow> c # replace_all rx f (Suc offset) cs)
      | Some (caps, rest) \<Rightarrow>
          if length s - length rest = 0
          then f [] (first_group caps) offset
               @ (case s of [] \<Rightarrow> [] | c # cs \<Rightarrow> c # replace_all rx f (Suc offset) cs)
          else f (take (length s - length rest) s) (first_group caps) offset
               @ replace_all rx f (offset + (length s - length rest)) rest)"
  by pat_completeness auto
termination
  by (relation "measure (\<lambda>(rx, f, offset, s). length s)") auto

text \<open>
  The equation of \<open>replace_all\<close> rewrites every call of it; it is applied by hand.
\<close>

declare replace_all.simps [simp del]

subsection \<open>Rewriter: style sheets and scripts\<close>

definition type_error :: "string \<Rightarrow> js_error" where
  "type_error msg = \<lparr>message = msg, statusCode = None\<rparr>"

definition quotes :: string where
  "quotes = [CHR 0x27, CHR 0x22]"

definition quotes_and_backtick :: string where
  "quotes_and_backtick = [CHR 0x27, CHR 0x22, CHR 0x60]"

text \<open>The pattern \<^verbatim>\<open>url\(['"]?([^'")]+)['"]?\)\<close>.\<close>

definition url_pattern :: "atom list" where
  "url_pattern =
     [Lit ''url('', Opt (AnyOf quotes), Group_open, Plus (NoneOf (quotes @ '')'')), Group_close,
      Opt (AnyOf quotes), Lit '')'']"

text \<open>The pattern \<^verbatim>\<open>@import\s+['"]([^'"]+)['"]\<close>.\<close>

definition import_pattern :: "atom list" where
  "import_pattern =
     [Lit ''@import'', Plus Space, One (AnyOf quotes), Group_open, Plus (NoneOf quotes),
      Group_close, One (AnyOf quotes)]"

text \<open>
  \<^verbatim>\<open>rewriteCSS\<close>: the two replacements, the second on the result of the first. Both callbacks
  write the rewritten URL between single quotes. A \<^verbatim>\<open>css\<close> that is not a string has no
  \<^verbatim>\<open>replace\<close> method: the call throws.
\<close>

definition rewriteCSS ::
  "platform \<Rightarrow> rewriter \<Rightarrow> js_value \<Rightarrow> rewrite_options \<Rightarrow> js_error + js_value" where
  "rewriteCSS env this css options =
     (case css of
        JString s \<Rightarrow>
          let css1 = replace_all url_pattern
                (\<lambda>match url offset.
                   ''url('' @ [CHR 0x27] @ to_string (rewriteURL env this url (targetUrl options))
                     @ [CHR 0x27] @ '')'') 0 s;
              css2 = replace_all import_pattern
                (\<lambda>match url offset.
                   ''@import '' @ [CHR 0x27] @ to_string (rewriteURL env this url (targetUrl options))
                     @ [CHR 0x27]) 0 css1
          in Inr (JString css2)
      | _ \<Rightarrow> Inl (type_error ''css.replace is not a function''))"

text \<open>\<^verbatim>\<open>rewriteWebSocketURL\<close>: every exception is caught and the URL returned as it is.\<close>

definition rewriteWebSocketURL :: "platform \<Rightarrow> rewriter \<Rightarrow> js_value \<Rightarrow> js_value" where
  "rewriteWebSocketURL env this url =
     (case url of
        JString s \<Rightarrow>
          (case URL_parse env s of
             None \<Rightarrow> url
           | Some urlObj \<Rightarrow>
               (case URL_parse env (proxyUrl this @ ''/api/ws'') of
                  None \<Rightarrow> url
                | Some wsUrl \<Rightarrow> JString (URL_set_param env wsUrl ''url'' s)))
      | _ \<Rightarrow> url)"

text \<open>
  The patterns \<^verbatim>\<open>fetch\s*\(\s*['"`]([^'"`]+)['"`]\<close>, \<^verbatim>\<open>\.open\s*\(\s*['"`]([^'"`]+)['"`]\<close>
  and \<^verbatim>\<open>new\s+WebSocket\s*\(\s*['"`]([^'"`]+)['"`]\<close>.
\<close>

definition fetch_pattern :: "atom list" where
  "fetch_pattern =
     [Lit ''fetch'', Star Space, Lit ''('', Star Space, One (AnyOf quotes_and_backtick),
      Group_open, Plus (NoneOf quotes_and_backtick), Group_close, One (AnyOf quotes_and_backtick)]"

definition open_pattern :: "atom list" where
  "open_pattern =
     [Lit ''.open'', Star Space, Lit ''('', Star Space, One (AnyOf quotes_and_backtick),
      Group_open, Plus (NoneOf quotes_and_backtick), Group_close, One (AnyOf quotes_and_backtick)]"

definition websocket_pattern :: "atom list" where
  "websocket_pattern =
     [Lit ''new'', Plus Space, Lit ''WebSocket'', Star Space, Lit ''('', Star Space,
      One (AnyOf quotes_and_backtick),
      Group_open, Plus (NoneOf quotes_and_backtick), Group_close, One (AnyOf quotes_and_backtick)]"

text \<open>
  The text that \<^verbatim>\<open>injectSessionManagement\<close> puts before the script: the template literal
  of the source, line for line, with the session id interpolated.
\<close>

definition sessionCode :: "string \<Rightarrow> string" where
  "sessionCode sid =
     ''\<newline>'' @
     ''            // Session management\<newline>'' @
     ''            if (typeof window !== 'undefined') {\<newline>'' @
     ''                window.BOURBON_SESSION = '' @
     [CHR 0x27] @
     sid @
     [CHR 0x27] @
     '';\<newline>'' @
     ''                \<newline>'' @
     ''                // Override localStorage\<newline>'' @
     ''                const originalLocalStorage = window.localStorage;\<newline>'' @
     ''                window.localStorage = {\<newline>'' @
     ''                    getItem: function(key) {\<newline>'' @
     ''                        return originalLocalStorage.getItem('bourbon_' + key);\<newline>'' @
     ''                    },\<newline>'' @
     ''                    setItem: function(key, value) {\<newline>'' @
     ''                        return originalLocalStorage.setItem('bourbon_' + key, value);\<newline>'' @
     ''                    },\<newline>'' @
     ''                    removeItem: function(key) {\<newline>'' @
     ''                        return originalLocalStorage.removeItem('bourbon_' + key);\<newline>'' @
     ''                    },\<newline>'' @
     ''                    clear: function() {\<newline>'' @
     ''                        return originalLocalStorage.clear();\<newline>'' @
     ''                    },\<newline>'' @
     ''                    get length() {\<newline>'' @
     ''                        return originalLocalStorage.length;\<newline>'' @
     ''                    },\<newline>'' @
     ''                    key: function(index) {\<newline>'' @
     ''                        return originalLocalStorage.key(index);\<newline>'' @
     ''                    }\<newline>'' @
     ''                };\<newline>'' @
     ''            }\<newline>'' @
     ''        ''"

definition injectSessionManagement :: "string \<Rightarrow> string \<Rightarrow> string" where
  "injectSessionManagement js sid = sessionCode sid @ ''\<newline>'' @ js"

text \<open>
  \<^verbatim>\<open>rewriteJavaScript\<close>. The callback of the second replacement names its parameters
  \<^verbatim>\<open>(match, method, url)\<close>; the pattern has one group, so \<^verbatim>\<open>method\<close> is the group and \<^verbatim>\<open>url\<close>
  is the offset of the match.
\<close>

definition rewriteJavaScript ::
  "platform \<Rightarrow> rewriter \<Rightarrow> js_value \<Rightarrow> rewrite_options \<Rightarrow> js_error + js_value" where
  "rewriteJavaScript env this js options =
     (case js of
        JString s \<Rightarrow>
          let js1 = replace_all fetch_pattern
                (\<lambda>match url offset.
                   ''fetch('' @ [CHR 0x27] @ to_string (rewriteURL env this url (targetUrl options))
                     @ [CHR 0x27]) 0 s;
              js2 = replace_all open_pattern
                (\<lambda>match method offset.
                   ''.open('' @ [CHR 0x27] @ to_string method @ [CHR 0x27] @ '', '' @ [CHR 0x27]
                     @ to_string (rewriteURL env this (JNumber (int offset)) (targetUrl options))
                     @ [CHR 0x27]) 0 js1;
              js3 = replace_all websocket_pattern
                (\<lambda>match url offset.
                   ''new WebSocket('' @ [CHR 0x27] @ to_string (rewriteWebSocketURL env this url)
                     @ [CHR 0x27]) 0 js2
          in Inr (JString
                (case sessionId options of
                   None \<Rightarrow> js3
                 | Some sid \<Rightarrow> if sid = [] then js3 else injectSessionManagement js3 sid))
      | _ \<Rightarrow> Inl (type_error ''js.replace is not a function''))"

subsection \<open>Rewriter: JSON, documents and the dispatch\<close>

text \<open>\<^verbatim>\<open>rewriteObject\<close>: strings that parse as a URL are rewritten, arrays and objects walked.\<close>

fun rewriteObject :: "platform \<Rightarrow> rewriter \<Rightarrow> json \<Rightarrow> string option \<Rightarrow> json" where
  "rewriteObject env this (JsonString s) target =
     (if isURL env s
      then (case rewriteURL env this (JString s) target of
              JString r \<Rightarrow> JsonString r
            | _ \<Rightarrow> JsonString s)
      else JsonString s)"
| "rewriteObject env this (JsonArray items) target =
     JsonArray (map (\<lambda>item. rewriteObject env this item target) items)"
| "rewriteObject env this (JsonObject entries) target =
     JsonObject (map (\<lambda>(k, v). (k, rewriteObject env this v target)) entries)"
| "rewriteObject env this obj target = obj"

text \<open>\<^verbatim>\<open>rewriteJSON\<close>: the \<^verbatim>\<open>catch\<close> returns the input.\<close>

definition rewriteJSON ::
  "platform \<Rightarrow> rewriter \<Rightarrow> js_value \<Rightarrow> rewrite_options \<Rightarrow> js_error + js_value" where
  "rewriteJSON env this json_text options =
     (case JSON_parse env json_text of
        None \<Rightarrow> Inr json_text
      | Some parsed \<Rightarrow>
          Inr (JString (JSON_stringify env (rewriteObject env this parsed (targetUrl options)))))"

text \<open>\<^verbatim>\<open>rewriteHTML\<close>: the \<^verbatim>\<open>catch\<close> returns the input.\<close>

definition rewriteHTML ::
  "platform \<Rightarrow> rewriter \<Rightarrow> js_value \<Rightarrow> rewrite_options \<Rightarrow> js_error + js_value" where
  "rewriteHTML env this html options =
     (case document_pipeline env this html options of
        Inl e \<Rightarrow> Inr html
      | Inr result \<Rightarrow> Inr result)"

text \<open>
  \<^verbatim>\<open>contentType.includes(p)\<close>: on a string, the substring test; \<^verbatim>\<open>undefined\<close> and \<^verbatim>\<open>null\<close>
  have no properties and booleans and numbers no such method, so the call throws; an
  object answers for itself.
\<close>

fun contentType_includes :: "platform \<Rightarrow> js_value \<Rightarrow> string \<Rightarrow> js_error + bool" where
  "contentType_includes env (JString s) p = Inr (js_includes s p)"
| "contentType_includes env JObject p = object_includes env p"
| "contentType_includes env JUndefined p =
     Inl (type_error ''Cannot read properties of undefined (reading 'includes')'')"
| "contentType_includes env JNull p =
     Inl (type_error ''Cannot read properties of null (reading 'includes')'')"
| "contentType_includes env v p = Inl (type_error ''contentType.includes is not a function'')"

text \<open>
  The \<^verbatim>\<open>try\<close> block of \<^verbatim>\<open>rewriteContent\<close>, with the \<^verbatim>\<open>return content\<close> that follows the
  statement when no branch is taken.
\<close>

definition dispatch ::
  "platform \<Rightarrow> rewriter \<Rightarrow> js_value \<Rightarrow> js_value \<Rightarrow> rewrite_options \<Rightarrow> js_error + js_value" where
  "dispatch env this content contentType options =
     (case contentType_includes env contentType ''text/html'' of
        Inl e \<Rightarrow> Inl e
      | Inr True \<Rightarrow> rewriteHTML env this content options
      | Inr False \<Rightarrow>
     (case contentType_includes env contentType ''text/css'' of
        Inl e \<Rightarrow> Inl e
      | Inr True \<Rightarrow> rewriteCSS env this content options
      | Inr False \<Rightarrow>
     (case contentType_includes env contentType ''application/javascript'' of
        Inl e \<Rightarrow> Inl e
      | Inr True \<Rightarrow> rewriteJavaScript env this content options
      | Inr False \<Rightarrow>
     (case contentType_includes env contentType ''application/json'' of
        Inl e \<Rightarrow> Inl e
      | Inr True \<Rightarrow> rewriteJSON env this content options
      | Inr False \<Rightarrow> Inr content))))"

text \<open>
  The third argument of \<^verbatim>\<open>rewriteContent\<close>: left out (the default \<^verbatim>\<open>{}\<close> applies), \<^verbatim>\<open>null\<close>,
  or an object. Destructuring \<^verbatim>\<open>null\<close> throws, and the destructuring stands before the
  \<^verbatim>\<open>try\<close> block.
\<close>

datatype options_argument = Options_undefined | Options_null | Options rewrite_options

fun destructure :: "options_argument \<Rightarrow> js_error + rewrite_options" where
  "destructure Options_undefined = Inr \<lparr>sessionId = None, targetUrl = None\<rparr>"
| "destructure Options_null =
     Inl (type_error ''Cannot destructure property 'sessionId' of 'options' as it is null.'')"
| "destructure (Options options) = Inr options"

text \<open>
  \<^verbatim>\<open>rewriteContent\<close>. The method is \<^verbatim>\<open>async\<close>: \<open>Inl\<close> is the promise rejected with the
  exception, \<open>Inr\<close> the promise fulfilled with the value.
\<close>

definition rewriteContent ::
  "platform \<Rightarrow> rewriter \<Rightarrow> js_value \<Rightarrow> js_value \<Rightarrow> options_argument \<Rightarrow> js_error + js_value" where
  "rewriteContent env this content contentType options =
     (if \<not> truthy content then Inr content
      else (case destructure options of
              Inl e \<Rightarrow> Inl e
            | Inr destructured \<Rightarrow>
                (case dispatch env this content contentType destructured of
                   Inl error \<Rightarrow> Inr content
                 | Inr result \<Rightarrow> Inr result)))"

subsection \<open>Rewriter: the references of a style sheet\<close>

text \<open>
  What \<^verbatim>\<open>rewriteCSS\<close> replaces and by what, said without a matcher.

  \<open>url_reference m u\<close>: the text \<open>m\<close> is a \<^verbatim>\<open>url(...)\<close> reference to \<open>u\<close>, that is \<^verbatim>\<open>url(\<close>, a
  quote or nothing, the URL \<open>u\<close> (one or more characters, none of them a quote or a closing
  parenthesis), a quote or nothing, and \<^verbatim>\<open>)\<close>. \<open>import_rule m u\<close>: the text \<open>m\<close> is an
  \<^verbatim>\<open>@import\<close> of \<open>u\<close>, that is \<^verbatim>\<open>@import\<close>, one or more white-space characters, a quote, the URL
  \<open>u\<close> (one or more characters, none of them a quote) and a quote.
\<close>

definition url_reference :: "string \<Rightarrow> string \<Rightarrow> bool" where
  "url_reference m u \<longleftrightarrow>
     (\<exists>q1 q2. q1 \<in> {[], [CHR 0x27], [CHR 0x22]} \<and> q2 \<in> {[], [CHR 0x27], [CHR 0x22]}
        \<and> u \<noteq> [] \<and> set u \<inter> set (quotes @ '')'') = {}
        \<and> m = ''url('' @ q1 @ u @ q2 @ '')'')"

definition white_space_run :: "string \<Rightarrow> bool" where
  "white_space_run ws \<longleftrightarrow>
     (\<exists>characters. characters \<noteq> [] \<and> set characters \<subseteq> set white_space \<and> ws = concat characters)"

definition import_rule :: "string \<Rightarrow> string \<Rightarrow> bool" where
  "import_rule m u \<longleftrightarrow>
     (\<exists>ws q1 q2. white_space_run ws \<and> q1 \<in> set quotes \<and> q2 \<in> set quotes
        \<and> u \<noteq> [] \<and> set u \<inter> set quotes = {}
        \<and> m = ''@import'' @ ws @ [q1] @ u @ [q2])"

text \<open>
  \<open>replaced M R s out\<close>: \<open>out\<close> is the text \<open>s\<close> with every \<open>M\<close> replaced. The text is read from
  left to right; where a text \<open>m\<close> with \<open>M m u\<close> begins, \<open>R u\<close> is written for it and the
  reading goes on after \<open>m\<close>; where none begins, one character is copied.
\<close>

definition begins :: "(string \<Rightarrow> string \<Rightarrow> bool) \<Rightarrow> string \<Rightarrow> bool" where
  "begins M s \<longleftrightarrow> (\<exists>m u rest. M m u \<and> s = m @ rest)"

inductive replaced :: "(string \<Rightarrow> string \<Rightarrow> bool) \<Rightarrow> (string \<Rightarrow> string) \<Rightarrow> string \<Rightarrow> string \<Rightarrow> bool"
  for M :: "string \<Rightarrow> string \<Rightarrow> bool" and R :: "string \<Rightarrow> string" where
  replaced_end: "replaced M R [] []"
| replaced_copy: "\<not> begins M (c # cs) \<Longrightarrow> replaced M R cs out \<Longrightarrow> replaced M R (c # cs) (c # out)"
| replaced_match: "M m u \<Longrightarrow> replaced M R rest out \<Longrightarrow> replaced M R (m @ rest) (R u @ out)"

text \<open>
  What is written for a reference to \<open>u\<close> and for an \<^verbatim>\<open>@import\<close> of \<open>u\<close>: the URL that
  \<^verbatim>\<open>rewriteURL\<close> returns for \<open>u\<close>, between single quotes.
\<close>

definition url_replacement :: "platform \<Rightarrow> rewriter \<Rightarrow> rewrite_options \<Rightarrow> string \<Rightarrow> string" where
  "url_replacement env this options u =
     ''url('' @ [CHR 0x27] @ to_string (rewriteURL env this (JString u) (targetUrl options))
       @ [CHR 0x27] @ '')''"

definition import_replacement :: "platform \<Rightarrow> rewriter \<Rightarrow> rewrite_options \<Rightarrow> string \<Rightarrow> string" where
  "import_replacement env this options u =
     ''@import '' @ [CHR 0x27] @ to_string (rewriteURL env this (JString u) (targetUrl options))
       @ [CHR 0x27]"

section \<open>Properties\<close>

subsection \<open>The rate limiter\<close>

lemma rateLimiter_bound:
  assumes "\<forall>a ts. requests a = Some ts \<longrightarrow> length ts \<le> maxRequests opts"
  shows "\<forall>a ts. snd (rateLimiter opts ctx now requests) a = Some ts \<longrightarrow> length ts \<le> maxRequests opts"
proof (intro allI impI)
  fix a ts
  assume after: "snd (rateLimiter opts ctx now requests) a = Some ts"
  show "length ts \<le> maxRequests opts"
  proof (cases "ctx_request ctx")
    case None
    with after assms show ?thesis by (simp add: rateLimiter_def)
  next
    case (Some req)
    show ?thesis
    proof (cases "a = clientIP req")
      case False
      with after Some assms show ?thesis
        by (auto simp: rateLimiter_def Let_def split: if_splits)
    next
      case True
      define stored where "stored = (case requests a of None \<Rightarrow> [] | Some us \<Rightarrow> us)"
      define kept where "kept = dropWhile (\<lambda>t. t < now - windowMs opts) stored"
      have "length stored \<le> maxRequests opts"
        using assms by (simp add: stored_def split: option.splits)
      then have kept: "length kept \<le> maxRequests opts"
        using length_dropWhile_le [of "\<lambda>t. t < now - windowMs opts" stored]
        by (simp add: kept_def)
      have "ts = kept \<or> (length kept < maxRequests opts \<and> ts = kept @ [now])"
        using after Some True
        by (auto simp: rateLimiter_def Let_def kept_def stored_def split: if_splits)
      with kept show ?thesis by auto
    qed
  qed
qed

lemma serve_bound:
  assumes "\<forall>a ts. requests a = Some ts \<longrightarrow> length ts \<le> maxRequests opts"
  shows "\<forall>a ts. snd (serve opts calls requests) a = Some ts \<longrightarrow> length ts \<le> maxRequests opts"
  using assms
proof (induction calls arbitrary: requests)
  case Nil
  then show ?case by simp
next
  case (Cons c calls)
  obtain ctx now where c: "c = (ctx, now)" by (cases c)
  obtain e r' where r: "rateLimiter opts ctx now requests = (e, r')"
    by (cases "rateLimiter opts ctx now requests")
  have "\<forall>a ts. r' a = Some ts \<longrightarrow> length ts \<le> maxRequests opts"
    using rateLimiter_bound [OF Cons.prems, of ctx now] r by simp
  from Cons.IH [OF this] show ?case
    by (simp add: c r split: prod.splits)
qed

lemma rateLimiter_rejected:
  assumes "rateLimiter opts ctx now requests = (Some e, requests')"
  shows "\<exists>req. ctx_request ctx = Some req
           \<and> e = rate_limit_exceeded
           \<and> requests' = requests(clientIP req \<mapsto>
                dropWhile (\<lambda>t. t < now - windowMs opts)
                  (case requests (clientIP req) of None \<Rightarrow> [] | Some ts \<Rightarrow> ts))"
  using assms
  by (auto simp: rateLimiter_def Let_def split: option.splits if_splits)

text \<open>
  Claim C7. With \<^verbatim>\<open>windowMs = 1000\<close> and \<^verbatim>\<open>maxRequests = 2\<close>, three requests from one
  client address whose clock readings lie within 1000 ms, arriving at a limiter that holds
  no timestamps for that address, give exactly one failure: the first two calls return,
  the third throws the error "Rate limit exceeded" whose \<^verbatim>\<open>statusCode\<close> is 429.
\<close>

theorem rateLimiter_third_request_rejected:
  assumes "windowMs opts = 1000" and "maxRequests opts = 2"
    and "ctx_request c1 = Some r1" and "ctx_request c2 = Some r2" and "ctx_request c3 = Some r3"
    and "clientIP r1 = a" and "clientIP r2 = a" and "clientIP r3 = a"
    and "requests a = None"
    and "t1 \<le> t2" and "t2 \<le> t3" and "t3 \<le> t1 + 1000"
  shows "fst (serve opts [(c1, t1), (c2, t2), (c3, t3)] requests)
       = [None, None, Some \<lparr>message = ''Rate limit exceeded'', statusCode = Some 429\<rparr>]"
proof -
  let ?s1 = "requests(a \<mapsto> [t1])"
  let ?s2 = "requests(a \<mapsto> [t1, t2])"
  have 1: "rateLimiter opts c1 t1 requests = (None, ?s1)"
    using assms by (simp add: rateLimiter_def)
  have 2: "rateLimiter opts c2 t2 ?s1 = (None, ?s2)"
    using assms by (simp add: rateLimiter_def)
  have 3: "rateLimiter opts c3 t3 ?s2 = (Some rate_limit_exceeded, ?s2)"
    using assms by (simp add: rateLimiter_def)
  show ?thesis
    by (simp add: 1 2 3 rate_limit_exceeded_def)
qed

theorem rateLimiter_third_request_rejected_witness:
  "fst (serve \<lparr>windowMs = 1000, maxRequests = 2, skipSuccessfulRequests = False\<rparr>
      [(\<lparr>ctx_request = Some \<lparr>remoteAddress = Some ''10.0.0.7'', x_forwarded_for = None\<rparr>,
          ctx_error = None\<rparr>, 5000),
       (\<lparr>ctx_request = Some \<lparr>remoteAddress = None, x_forwarded_for = Some ''10.0.0.7''\<rparr>,
          ctx_error = None\<rparr>, 5400),
       (\<lparr>ctx_request = Some \<lparr>remoteAddress = Some ''10.0.0.7'', x_forwarded_for = Some ''10.9.9.9''\<rparr>,
          ctx_error = None\<rparr>, 6000)]
      Map.empty)
   = [None, None, Some \<lparr>message = ''Rate limit exceeded'', statusCode = Some 429\<rparr>]"
  by (rule rateLimiter_third_request_rejected
        [where a = "''10.0.0.7''"
           and ?r1.0 = "\<lparr>remoteAddress = Some ''10.0.0.7'', x_forwarded_for = None\<rparr>"
           and ?r2.0 = "\<lparr>remoteAddress = None, x_forwarded_for = Some ''10.0.0.7''\<rparr>"
           and ?r3.0 = "\<lparr>remoteAddress = Some ''10.0.0.7'', x_forwarded_for = Some ''10.9.9.9''\<rparr>"])
     (simp_all add: clientIP_def)

text \<open>
  Claim C9. In every state the limiter can reach from its initial, empty map, no client's
  timestamp array is longer than \<^verbatim>\<open>maxRequests\<close>. A call that throws does so before the
  push: it leaves the client's array as the pruned old array (the clock reading of the
  rejected call is not recorded) and leaves every other client's array alone.
\<close>

theorem rateLimiter_rejection_records_nothing:
  fixes calls :: "('a mw_context_scheme \<times> int) list"
  shows
  "(\<forall>a ts. snd (serve opts calls Map.empty) a = Some ts \<longrightarrow> length ts \<le> maxRequests opts)
   \<and> (\<forall>(ctx :: 'a mw_context_scheme) now e requests'.
        rateLimiter opts ctx now (snd (serve opts calls Map.empty)) = (Some e, requests') \<longrightarrow>
        (\<exists>req. ctx_request ctx = Some req
           \<and> e = rate_limit_exceeded
           \<and> requests' = (snd (serve opts calls Map.empty))(clientIP req \<mapsto>
                dropWhile (\<lambda>t. t < now - windowMs opts)
                  (case snd (serve opts calls Map.empty) (clientIP req) of
                     None \<Rightarrow> [] | Some ts \<Rightarrow> ts))))"
proof (intro conjI allI impI)
  show "length ts \<le> maxRequests opts"
    if "snd (serve opts calls Map.empty) a = Some ts" for a ts
    using serve_bound [of Map.empty opts calls] that by simp
next
  fix ctx :: "'a mw_context_scheme" and now e requests'
  assume "rateLimiter opts ctx now (snd (serve opts calls Map.empty)) = (Some e, requests')"
  then show "\<exists>req. ctx_request ctx = Some req
           \<and> e = rate_limit_exceeded
           \<and> requests' = (snd (serve opts calls Map.empty))(clientIP req \<mapsto>
                dropWhile (\<lambda>t. t < now - windowMs opts)
                  (case snd (serve opts calls Map.empty) (clientIP req) of
                     None \<Rightarrow> [] | Some ts \<Rightarrow> ts))"
    by (rule rateLimiter_rejected)
qed

theorem rateLimiter_rejection_records_nothing_witness:
  "snd (serve \<lparr>windowMs = 1000, maxRequests = 2, skipSuccessfulRequests = False\<rparr>
      [(\<lparr>ctx_request = Some \<lparr>remoteAddress = Some ''10.0.0.7'', x_forwarded_for = None\<rparr>,
          ctx_error = None\<rparr>, 5000),
       (\<lparr>ctx_request = Some \<lparr>remoteAddress = Some ''10.0.0.7'', x_forwarded_for = None\<rparr>,
          ctx_error = None\<rparr>, 5400)]
      Map.empty) ''10.0.0.7'' = Some [5000, 5400]
   \<and> length [5000, 5400 :: int] \<le> 2
   \<and> rateLimiter \<lparr>windowMs = 1000, maxRequests = 2, skipSuccessfulRequests = False\<rparr>
        \<lparr>ctx_request = Some \<lparr>remoteAddress = Some ''10.0.0.7'', x_forwarded_for = None\<rparr>,
          ctx_error = None\<rparr> 6000
        [''10.0.0.7'' \<mapsto> [5000, 5400]]
     = (Some rate_limit_exceeded, [''10.0.0.7'' \<mapsto> [5000, 5400]])"
proof -
  let ?opts = "\<lparr>windowMs = 1000, maxRequests = 2, skipSuccessfulRequests = False\<rparr>"
  let ?ctx = "\<lparr>ctx_request = Some \<lparr>remoteAddress = Some ''10.0.0.7'', x_forwarded_for = None\<rparr>,
          ctx_error = None\<rparr>"
  let ?calls = "[(?ctx, 5000), (?ctx, 5400 :: int)]"
  have state: "snd (serve ?opts ?calls Map.empty) = [''10.0.0.7'' \<mapsto> [5000, 5400]]"
    by (simp add: rateLimiter_def clientIP_def)
  have thrown: "rateLimiter ?opts ?ctx 6000 [''10.0.0.7'' \<mapsto> [5000, 5400]]
      = (Some rate_limit_exceeded, [''10.0.0.7'' \<mapsto> [5000, 5400]])"
    by (simp add: rateLimiter_def clientIP_def)
  from rateLimiter_rejection_records_nothing [of ?opts ?calls] state thrown
  show ?thesis by simp
qed

subsection \<open>The eviction sweep\<close>

lemma fold_Map_delete: "fold Map_delete ks m = filter (\<lambda>e. fst e \<notin> set ks) m"
  by (induction ks arbitrary: m) (auto simp: Map_delete_def intro: filter_cong)

lemma delete_selected:
  assumes "distinct (map fst m)"
  shows "fold Map_delete (map fst (filter P m)) m = filter (\<lambda>e. \<not> P e) m"
proof -
  have inj: "inj_on fst (set m)" using assms by (simp add: distinct_map)
  have "fst e \<notin> set (map fst (filter P m)) \<longleftrightarrow> \<not> P e" if "e \<in> set m" for e
    using that inj by (auto simp: inj_on_def)
  then show ?thesis
    unfolding fold_Map_delete by (intro filter_cong) auto
qed

lemma delete_prefix_of_permutation:
  assumes "distinct (map fst xs)" and "set ys = set xs" and "distinct ys"
  shows "set (fold Map_delete (map fst (take n ys)) xs) = set (drop n ys)"
    and "length (fold Map_delete (map fst (take n ys)) xs) = length xs - n"
proof -
  let ?r = "fold Map_delete (map fst (take n ys)) xs"
  have inj: "inj_on fst (set xs)" and dx: "distinct xs"
    using assms(1) by (simp_all add: distinct_map)
  have split: "set (take n ys) \<union> set (drop n ys) = set ys" "set (take n ys) \<inter> set (drop n ys) = {}"
    using assms(3) by (metis append_take_drop_id set_append, metis append_take_drop_id distinct_append)
  have mem: "fst e \<notin> set (map fst (take n ys)) \<longleftrightarrow> e \<in> set (drop n ys)" if "e \<in> set xs" for e
  proof
    assume "fst e \<notin> set (map fst (take n ys))"
    then have "e \<notin> set (take n ys)" by force
    with that split(1) assms(2) show "e \<in> set (drop n ys)" by blast
  next
    assume d: "e \<in> set (drop n ys)"
    show "fst e \<notin> set (map fst (take n ys))"
    proof
      assume "fst e \<in> set (map fst (take n ys))"
      then obtain e' where e': "e' \<in> set (take n ys)" "fst e' = fst e" by auto
      then have "e' \<in> set xs" using split(1) assms(2) by blast
      with inj that e'(2) have "e' = e" by (auto simp: inj_on_def)
      with e'(1) d split(2) show False by blast
    qed
  qed
  have r: "?r = filter (\<lambda>e. e \<in> set (drop n ys)) xs"
    unfolding fold_Map_delete using mem by (intro filter_cong) auto
  have sub: "set (drop n ys) \<subseteq> set xs" using split(1) assms(2) by blast
  show s: "set ?r = set (drop n ys)" using sub by (auto simp: r)
  have "distinct ?r" using dx by (simp add: r)
  then have "length ?r = card (set ?r)" by (simp add: distinct_card)
  also have "\<dots> = card (set (drop n ys))" by (simp add: s)
  also have "\<dots> = length (drop n ys)" using assms(3) by (simp add: distinct_card)
  also have "\<dots> = length xs - n"
    using assms dx by (metis distinct_card length_drop)
  finally show "length ?r = length xs - n" .
qed

lemma sorted_take_le_drop:
  assumes "sorted (map f ys)" and "a \<in> set (take n ys)" and "b \<in> set (drop n ys)"
  shows "f a \<le> f b"
proof -
  have "sorted (map f (take n ys) @ map f (drop n ys))"
    using assms(1) by (metis append_take_drop_id map_append)
  then show ?thesis using assms(2,3) by (auto simp: sorted_append)
qed

text \<open>
  Claim C3. Let \<open>live\<close> be the sessions that are not stale at the sweep's clock reading
  (the store after the first step, in its order). After the sweep no stale session is
  left and at most \<^verbatim>\<open>maxSessions\<close> sessions are; if \<open>live\<close> fits the capacity the store
  is \<open>live\<close>, and otherwise exactly \<^verbatim>\<open>maxSessions\<close> sessions of \<open>live\<close> remain, and each
  session dropped in this second step was accessed no later than each session kept.
  The store is a \<^verbatim>\<open>Map\<close>: its keys are distinct before, and after.
\<close>

theorem cleanupOldSessions_sweep:
  assumes "distinct (map fst (sessions m))"
  shows "let live = filter (\<lambda>e. \<not> now - lastAccessed (snd e) > sessionTimeout m) (sessions m);
             after = sessions (cleanupOldSessions now m)
         in (\<forall>e \<in> set after. \<not> now - lastAccessed (snd e) > sessionTimeout m)
          \<and> length after \<le> maxSessions m
          \<and> (length live \<le> maxSessions m \<longrightarrow> after = live)
          \<and> (length live > maxSessions m \<longrightarrow> length after = maxSessions m)
          \<and> set after \<subseteq> set live
          \<and> (\<forall>d \<in> set live - set after. \<forall>k \<in> set after.
                 lastAccessed (snd d) \<le> lastAccessed (snd k))
          \<and> distinct (map fst after)"
proof -
  define live where "live = filter (\<lambda>e. \<not> now - lastAccessed (snd e) > sessionTimeout m) (sessions m)"
  define srt where "srt = sort_key (\<lambda>e. lastAccessed (snd e)) live"
  define excess where "excess = length live - maxSessions m"
  define after where "after = sessions (cleanupOldSessions now m)"
  have first: "fold Map_delete
      (map fst (filter (\<lambda>e. now - lastAccessed (snd e) > sessionTimeout m) (sessions m))) (sessions m) = live"
    using delete_selected [OF assms] by (simp add: live_def)
  have after_eq: "after = (if length live > maxSessions m
      then fold Map_delete (map fst (take excess srt)) live else live)"
    by (simp add: after_def cleanupOldSessions_def Let_def first srt_def excess_def)
  have dl: "distinct (map fst live)"
    using assms by (simp add: live_def distinct_map_filter)
  have fresh: "\<forall>e \<in> set live. \<not> now - lastAccessed (snd e) > sessionTimeout m"
    by (simp add: live_def)
  have ss: "set srt = set live" and ds: "distinct srt"
    using dl by (simp_all add: srt_def distinct_map)
  have sorted: "sorted (map (\<lambda>e. lastAccessed (snd e)) srt)"
    by (simp add: srt_def)
  note cut = delete_prefix_of_permutation [OF dl ss ds, of excess]
  show ?thesis
  proof (cases "length live > maxSessions m")
    case False
    then have "after = live" by (simp add: after_eq)
    with False fresh dl show ?thesis
      unfolding Let_def live_def [symmetric] after_def [symmetric] by simp
  next
    case True
    then have a: "after = fold Map_delete (map fst (take excess srt)) live"
      by (simp add: after_eq)
    have set_after: "set after = set (drop excess srt)" using cut(1) a by simp
    have len: "length after = maxSessions m" using cut(2) a True by (simp add: excess_def)
    have sub: "set after \<subseteq> set live"
      using set_after ss by (metis set_drop_subset)
    have dropped: "set live - set after \<subseteq> set (take excess srt)"
      using set_after ss by (metis Diff_subset_conv Un_commute append_take_drop_id set_append subset_refl)
    have lru: "lastAccessed (snd d) \<le> lastAccessed (snd k)"
      if "d \<in> set live - set after" and "k \<in> set after" for d k
      using sorted_take_le_drop [OF sorted, of d excess k] that dropped set_after by auto
    have da: "distinct (map fst after)"
      using dl by (simp add: a fold_Map_delete distinct_map_filter)
    from True len sub lru da fresh show ?thesis
      unfolding Let_def live_def [symmetric] after_def [symmetric] by auto
  qed
qed

theorem cleanupOldSessions_sweep_witness:
  "distinct (map fst [(''a'', sample_session ''a'' 850), (''b'', sample_session ''b'' 950),
                      (''c'', sample_session ''c'' 990), (''d'', sample_session ''d'' 920)])
   \<and> map fst (sessions (cleanupOldSessions 1000
        \<lparr>sessions = [(''a'', sample_session ''a'' 850), (''b'', sample_session ''b'' 950),
                      (''c'', sample_session ''c'' 990), (''d'', sample_session ''d'' 920)],
         maxSessions = 2, sessionTimeout = 100\<rparr>)) = [''b'', ''c'']
   \<and> length (sessions (cleanupOldSessions 1000
        \<lparr>sessions = [(''a'', sample_session ''a'' 850), (''b'', sample_session ''b'' 950),
                      (''c'', sample_session ''c'' 990), (''d'', sample_session ''d'' 920)],
         maxSessions = 2, sessionTimeout = 100\<rparr>)) = 2"
proof -
  let ?m = "\<lparr>sessions = [(''a'', sample_session ''a'' 850), (''b'', sample_session ''b'' 950),
                      (''c'', sample_session ''c'' 990), (''d'', sample_session ''d'' 920)],
         maxSessions = 2, sessionTimeout = 100\<rparr>"
  have d: "distinct (map fst (sessions ?m))" by simp
  have keys: "map fst (sessions (cleanupOldSessions 1000 ?m)) = [''b'', ''c'']"
    by (simp add: cleanupOldSessions_def Map_delete_def sample_session_def)
  from cleanupOldSessions_sweep [OF d, of 1000] have "length (sessions (cleanupOldSessions 1000 ?m)) = 2"
    by (simp add: Let_def sample_session_def)
  with d keys show ?thesis by simp
qed

subsection \<open>The middleware pipeline\<close>



lemma execute_loop_all_return:
  assumes "first_failure hs ctx w = None"
  shows "thrown (execute_loop M ty hs ctx w) = None \<and> error_calls (execute_loop M ty hs ctx w) = []"
  using assms
  by (induction hs arbitrary: ctx w) (auto split: prod.splits option.splits)




subsection \<open>Export and import of a session\<close>








subsection \<open>Rewriting one URL\<close>

lemma below_sixteen: "[0..<16] = [0, 1, 2, 3, 4, 5, 6, 7, 8, 9, 10, 11, 12, 13, 14, 15 :: nat]"
  by code_simp

lemma hex_value_digit_char: "n < 16 \<Longrightarrow> hex_value (digit_char n) = Some n"
proof -
  assume "n < 16"
  then have "n \<in> set [0..<16]" by simp
  then have "n \<in> set [0, 1, 2, 3, 4, 5, 6, 7, 8, 9, 10, 11, 12, 13, 14, 15]"
    unfolding below_sixteen .
  moreover have "\<forall>m \<in> set [0, 1, 2, 3, 4, 5, 6, 7, 8, 9, 10, 11, 12, 13, 14, 15 :: nat].
      hex_value (digit_char m) = Some m"
    by (simp add: hex_value_def)
  ultimately show ?thesis by blast
qed

lemma percent_decode_plain:
  "c \<noteq> CHR ''%'' \<Longrightarrow> percent_decode (c # cs) = map_option ((#) c) (percent_decode cs)"
  by (cases cs rule: percent_decode.cases) simp_all

lemma percent_decode_percent_byte:
  "percent_decode (percent_byte c @ rest) = map_option ((#) c) (percent_decode rest)"
proof -
  have "(of_char c :: nat) < 256" by simp
  then have hi: "(of_char c :: nat) div 16 < 16" by presburger
  have lo: "(of_char c :: nat) mod 16 < 16" by simp
  have "char_of (16 * ((of_char c :: nat) div 16) + of_char c mod 16) = c" by simp
  then show ?thesis
    using hex_value_digit_char [OF hi] hex_value_digit_char [OF lo]
    by (simp add: percent_byte_def del: digit_char.simps)
qed

lemma uriUnreserved_not_percent: "uriUnreserved c \<Longrightarrow> c \<noteq> CHR ''%''"
  by (auto simp: uriUnreserved_def)

lemma percent_decode_encodeURIComponent: "percent_decode (encodeURIComponent s) = Some s"
proof (induction s)
  case Nil
  then show ?case by (simp add: encodeURIComponent_def)
next
  case (Cons c s)
  have step: "encodeURIComponent (c # s)
      = (if uriUnreserved c then [c] else percent_byte c) @ encodeURIComponent s"
    by (simp add: encodeURIComponent_def)
  show ?case
  proof (cases "uriUnreserved c")
    case True
    with Cons step uriUnreserved_not_percent [OF True] show ?thesis
      by (simp add: percent_decode_plain)
  next
    case False
    with Cons step show ?thesis
      by (simp add: percent_decode_percent_byte)
  qed
qed

lemma digit_char_safe: "query_safe (digit_char n)"
proof -
  have "n mod 16 \<in> set [0..<16]" by simp
  then have "n mod 16 \<in> set [0, 1, 2, 3, 4, 5, 6, 7, 8, 9, 10, 11, 12, 13, 14, 15]"
    unfolding below_sixteen .
  moreover have "\<forall>m \<in> set [0, 1, 2, 3, 4, 5, 6, 7, 8, 9, 10, 11, 12, 13, 14, 15 :: nat].
      query_safe (''0123456789ABCDEF'' ! m)"
    by (simp add: query_safe_def)
  ultimately show ?thesis by auto
qed

lemma encodeURIComponent_safe: "list_all query_safe (encodeURIComponent s)"
proof (induction s)
  case Nil
  then show ?case by (simp add: encodeURIComponent_def)
next
  case (Cons c s)
  have "list_all query_safe (if uriUnreserved c then [c] else percent_byte c)"
    using digit_char_safe
    by (auto simp: percent_byte_def uriUnreserved_def query_safe_def simp del: digit_char.simps)
  with Cons show ?case by (simp add: encodeURIComponent_def)
qed

lemma js_includes_suffix: "suffix d s \<Longrightarrow> js_includes s d"
proof (induction s)
  case Nil
  then show ?case by simp
next
  case (Cons c s)
  show ?case
  proof (cases "d = c # s")
    case True
    have "startsWith x x" for x :: string by (induction x) auto
    with True show ?thesis by simp
  next
    case False
    with Cons.prems have "suffix d s" by (auto simp: suffix_Cons)
    with Cons.IH show ?thesis by simp
  qed
qed

text \<open>
  Claim C5. Whatever the input string, if the URL that \<^verbatim>\<open>rewriteURL\<close> goes on with (the
  input resolved against the target when it starts with \<^verbatim>\<open>/\<close>, \<^verbatim>\<open>./\<close> or \<^verbatim>\<open>../\<close>, the input
  itself otherwise) parses and a configured blocked domain is a suffix of its host name,
  then \<^verbatim>\<open>rewriteURL\<close> returns that URL as it is, not a gateway URL.
\<close>

theorem blocked_url_returned_unproxied:
  assumes "URL_parse env (resolved_url env u target) = Some urlObj"
    and "domain \<in> set (blockedDomains this)"
    and "suffix domain (hostname urlObj)"
  shows "rewriteURL env this (JString u) target = JString (resolved_url env u target)"
proof -
  have blocked: "list_ex (\<lambda>d. js_includes (hostname urlObj) d) (blockedDomains this)"
    using assms(2,3) js_includes_suffix by (auto simp: list_ex_iff)
  show ?thesis
  proof (cases "resolve_relative env u target")
    case (Resolved absolute)
    then have "u \<noteq> []" by (auto simp: resolve_relative_def)
    with Resolved assms(1) blocked show ?thesis
      by (simp add: rewriteURL_def resolved_url_def to_gateway_def)
  next
    case Skipped
    then show ?thesis by (simp add: rewriteURL_def resolved_url_def)
  next
    case Failed
    then show ?thesis by (simp add: rewriteURL_def resolved_url_def)
  qed
qed

theorem blocked_url_returned_unproxied_witness:
  "\<forall>env. rewriteURL (env\<lparr>URL_parse := simple_URL\<rparr>)
      \<lparr>proxyUrl = ''http://p'', enableMinification = False, blockedDomains = [''example.com'']\<rparr>
      (JString ''/ads.js'') (Some ''https://ads.example.com/page'')
    = JString ''https://ads.example.com/ads.js''"
proof
  fix env :: platform
  let ?env = "env\<lparr>URL_parse := simple_URL\<rparr>"
  let ?rw = "\<lparr>proxyUrl = ''http://p'', enableMinification = False, blockedDomains = [''example.com'']\<rparr>"
  have r: "resolved_url ?env ''/ads.js'' (Some ''https://ads.example.com/page'')
      = ''https://ads.example.com/ads.js''"
    by (simp add: resolved_url_def resolve_relative_def simple_URL_def Let_def)
  have p: "URL_parse ?env (resolved_url ?env ''/ads.js'' (Some ''https://ads.example.com/page''))
      = Some \<lparr>protocol = ''https:'', host = ''ads.example.com'', hostname = ''ads.example.com'',
               href = ''https://ads.example.com/ads.js''\<rparr>"
    unfolding r by (simp add: simple_URL_def Let_def)
  have d: "''example.com'' \<in> set (blockedDomains ?rw)" by simp
  have s: "suffix ''example.com'' (hostname \<lparr>protocol = ''https:'', host = ''ads.example.com'',
      hostname = ''ads.example.com'', href = ''https://ads.example.com/ads.js''\<rparr>)"
    by (simp add: suffix_def)
  from blocked_url_returned_unproxied [OF p d s] r
  show "rewriteURL ?env ?rw (JString ''/ads.js'') (Some ''https://ads.example.com/page'')
    = JString ''https://ads.example.com/ads.js''" by simp
qed

text \<open>
  Claim C1, as the code has it. For a string that starts with \<^verbatim>\<open>http\<close>, that \<^verbatim>\<open>new URL\<close>
  accepts and whose host name contains no configured blocked domain as a substring,
  \<^verbatim>\<open>rewriteURL\<close> returns \<^verbatim>\<open>proxyUrl + '/api/gateway?url=' + encodeURIComponent(u)\<close>; the
  encoded component decodes to \<open>u\<close>, and it holds no character that ends or splits a
  query parameter, so it is the whole of the \<^verbatim>\<open>url\<close> parameter.
\<close>

theorem absolute_url_to_gateway:
  assumes "startsWith u ''http''"
    and "URL_parse env u = Some urlObj"
    and "\<not> list_ex (\<lambda>domain. js_includes (hostname urlObj) domain) (blockedDomains this)"
  shows "rewriteURL env this (JString u) target
           = JString (proxyUrl this @ ''/api/gateway?url='' @ encodeURIComponent u)
       \<and> percent_decode (encodeURIComponent u) = Some u
       \<and> list_all query_safe (encodeURIComponent u)"
proof -
  from assms(1) have ne: "u \<noteq> []" by auto
  from assms(1) have "\<not> startsWith u ''/''" "\<not> startsWith u ''./''" "\<not> startsWith u ''../''"
    by (cases u; simp)+
  with assms(1) have "resolve_relative env u target = Resolved u"
    by (simp add: resolve_relative_def)
  with ne assms(2,3) show ?thesis
    by (simp add: rewriteURL_def to_gateway_def percent_decode_encodeURIComponent
        encodeURIComponent_safe)
qed

theorem absolute_url_to_gateway_witness:
  "\<forall>env. rewriteURL (env\<lparr>URL_parse := simple_URL\<rparr>)
      \<lparr>proxyUrl = ''http://p'', enableMinification = False, blockedDomains = [''example.com'']\<rparr>
      (JString ''https://a.com/x'') None
    = JString ''http://p/api/gateway?url=https%3A%2F%2Fa.com%2Fx''
   \<and> percent_decode ''https%3A%2F%2Fa.com%2Fx'' = Some ''https://a.com/x''"
proof
  fix env :: platform
  let ?env = "env\<lparr>URL_parse := simple_URL\<rparr>"
  let ?rw = "\<lparr>proxyUrl = ''http://p'', enableMinification = False, blockedDomains = [''example.com'']\<rparr>"
  let ?obj = "\<lparr>protocol = ''https:'', host = ''a.com'', hostname = ''a.com'', href = ''https://a.com/x''\<rparr>"
  have enc: "encodeURIComponent ''https://a.com/x'' = ''https%3A%2F%2Fa.com%2Fx''"
    by (simp add: encodeURIComponent_def uriUnreserved_def percent_byte_def)
  have h: "startsWith ''https://a.com/x'' ''http''" by simp
  have p: "URL_parse ?env ''https://a.com/x'' = Some ?obj"
    by (simp add: simple_URL_def Let_def)
  have b: "\<not> list_ex (\<lambda>domain. js_includes (hostname ?obj) domain) (blockedDomains ?rw)"
    by simp
  from absolute_url_to_gateway [OF h p b, of None]
  show "rewriteURL ?env ?rw (JString ''https://a.com/x'') None
      = JString ''http://p/api/gateway?url=https%3A%2F%2Fa.com%2Fx''
    \<and> percent_decode ''https%3A%2F%2Fa.com%2Fx'' = Some ''https://a.com/x''"
    by (simp add: enc)
qed

text \<open>
  Claim C1 as stated gives the gateway form as \<^verbatim>\<open>{proxyBase}/gateway?url=...\<close> for every
  well-formed absolute URL whose host is not on the block list (a blocked domain being a
  suffix of the host). With proxy URL \<^verbatim>\<open>http://p\<close> the path of the result is
  \<^verbatim>\<open>/api/gateway\<close>; a host that merely contains a blocked domain is left unproxied; and a
  URL whose scheme is written in upper case is returned as it is.
\<close>

theorem rewriteURL_not_the_stated_gateway_form:
  "\<forall>env.
     rewriteURL (env\<lparr>URL_parse := simple_URL\<rparr>)
       \<lparr>proxyUrl = ''http://p'', enableMinification = False, blockedDomains = []\<rparr>
       (JString ''https://a.com/x'') None
     = JString ''http://p/api/gateway?url=https%3A%2F%2Fa.com%2Fx''
   \<and> rewriteURL (env\<lparr>URL_parse := simple_URL\<rparr>)
       \<lparr>proxyUrl = ''http://p'', enableMinification = False, blockedDomains = []\<rparr>
       (JString ''https://a.com/x'') None
     \<noteq> JString (''http://p'' @ ''/gateway?url='' @ encodeURIComponent ''https://a.com/x'')
   \<and> \<not> suffix ''a.com'' ''a.com.evil.org''
   \<and> rewriteURL (env\<lparr>URL_parse := simple_URL\<rparr>)
       \<lparr>proxyUrl = ''http://p'', enableMinification = False, blockedDomains = [''a.com'']\<rparr>
       (JString ''https://a.com.evil.org/x'') None
     = JString ''https://a.com.evil.org/x''
   \<and> rewriteURL (env\<lparr>URL_parse := simple_URL\<rparr>)
       \<lparr>proxyUrl = ''http://p'', enableMinification = False, blockedDomains = []\<rparr>
       (JString ''HTTPS://a.com/x'') None
     = JString ''HTTPS://a.com/x''"
  by (simp add: rewriteURL_def resolve_relative_def to_gateway_def simple_URL_def Let_def
      encodeURIComponent_def uriUnreserved_def percent_byte_def suffix_def)

subsection \<open>The dispatch of \<^verbatim>\<open>rewriteContent\<close>\<close>

text \<open>
  Claim C10. A falsy \<^verbatim>\<open>content\<close> (\<^verbatim>\<open>null\<close>, \<^verbatim>\<open>undefined\<close>, the empty string, and the other
  falsy values) is returned as it is, whatever the content type and the options are:
  neither is looked at, so nothing is thrown even when they are \<^verbatim>\<open>null\<close> or \<^verbatim>\<open>undefined\<close>.
\<close>

theorem falsy_content_returned:
  assumes "\<not> truthy content"
  shows "rewriteContent env this content contentType options = Inr content"
  using assms by (simp add: rewriteContent_def)

theorem falsy_content_returned_witness:
  "\<forall>env this.
     rewriteContent env this JNull JUndefined Options_null = Inr JNull
   \<and> rewriteContent env this JUndefined JNull Options_undefined = Inr JUndefined
   \<and> rewriteContent env this (JString []) JUndefined Options_null = Inr (JString [])"
proof (intro allI conjI)
  fix env this
  show "rewriteContent env this JNull JUndefined Options_null = Inr JNull"
    by (rule falsy_content_returned) simp
  show "rewriteContent env this JUndefined JNull Options_undefined = Inr JUndefined"
    by (rule falsy_content_returned) simp
  show "rewriteContent env this (JString []) JUndefined Options_null = Inr (JString [])"
    by (rule falsy_content_returned) simp
qed

text \<open>
  Claim C2, as the code has it. When the \<^verbatim>\<open>options\<close> argument is left out or is an object,
  \<^verbatim>\<open>rewriteContent\<close> returns for every content and content type; whenever the dispatch
  throws (a content type without \<^verbatim>\<open>includes\<close>, a content without \<^verbatim>\<open>replace\<close>), when the
  document pipeline throws on an HTML input, and when \<^verbatim>\<open>JSON.parse\<close> throws on a JSON
  input, what it returns is the content it was given.
\<close>

theorem rewriteContent_catches:
  assumes "options \<noteq> Options_null"
  shows "(\<exists>v. rewriteContent env this content contentType options = Inr v)
    \<and> (\<forall>destructured e.
          destructure options = Inr destructured
          \<and> dispatch env this content contentType destructured = Inl e
          \<longrightarrow> rewriteContent env this content contentType options = Inr content)
    \<and> (\<forall>c destructured e.
          contentType = JString c \<and> js_includes c ''text/html''
          \<and> destructure options = Inr destructured
          \<and> document_pipeline env this content destructured = Inl e
          \<longrightarrow> rewriteContent env this content contentType options = Inr content)
    \<and> (\<forall>c. contentType = JString c
          \<and> \<not> js_includes c ''text/html'' \<and> \<not> js_includes c ''text/css''
          \<and> \<not> js_includes c ''application/javascript'' \<and> js_includes c ''application/json''
          \<and> JSON_parse env content = None
          \<longrightarrow> rewriteContent env this content contentType options = Inr content)"
proof -
  obtain d where d: "destructure options = Inr d"
    using assms by (cases options) auto
  have returns: "\<exists>v. rewriteContent env this content contentType options = Inr v"
    by (simp add: rewriteContent_def d split: sum.splits)
  have caught: "rewriteContent env this content contentType options = Inr content"
    if "dispatch env this content contentType d = Inl e" for e
    using that by (simp add: rewriteContent_def d)
  have html: "rewriteContent env this content contentType options = Inr content"
    if "contentType = JString c" "js_includes c ''text/html''"
      "document_pipeline env this content d = Inl e" for c e
    using that by (simp add: rewriteContent_def d dispatch_def rewriteHTML_def)
  have json: "rewriteContent env this content contentType options = Inr content"
    if "contentType = JString c" "\<not> js_includes c ''text/html''" "\<not> js_includes c ''text/css''"
      "\<not> js_includes c ''application/javascript''" "js_includes c ''application/json''"
      "JSON_parse env content = None" for c
    using that by (simp add: rewriteContent_def d dispatch_def rewriteJSON_def)
  from returns caught html json d show ?thesis by auto
qed

theorem rewriteContent_catches_witness:
  "\<forall>env this.
     rewriteContent env this (JString ''{oops'') JUndefined Options_undefined
       = Inr (JString ''{oops'')
   \<and> rewriteContent env this JObject (JString ''text/css; charset=utf-8'')
         (Options \<lparr>sessionId = None, targetUrl = Some ''https://a.com/page''\<rparr>)
       = Inr JObject"
proof (intro allI conjI)
  fix env this
  have u: "Options_undefined \<noteq> Options_null" by simp
  have "dispatch env this (JString ''{oops'') JUndefined \<lparr>sessionId = None, targetUrl = None\<rparr>
      = Inl (type_error ''Cannot read properties of undefined (reading 'includes')'')"
    by (simp add: dispatch_def)
  with rewriteContent_catches [OF u, of env this "JString ''{oops''" JUndefined]
  show "rewriteContent env this (JString ''{oops'') JUndefined Options_undefined
       = Inr (JString ''{oops'')"
    by simp
next
  fix env this
  let ?o = "\<lparr>sessionId = None, targetUrl = Some ''https://a.com/page''\<rparr>"
  have u: "Options ?o \<noteq> Options_null" by simp
  have "dispatch env this JObject (JString ''text/css; charset=utf-8'') ?o
      = Inl (type_error ''css.replace is not a function'')"
    by (simp add: dispatch_def rewriteCSS_def)
  with rewriteContent_catches [OF u, of env this JObject "JString ''text/css; charset=utf-8''"]
  show "rewriteContent env this JObject (JString ''text/css; charset=utf-8'') (Options ?o)
       = Inr JObject"
    by simp
qed

text \<open>
  Claim C2 as stated holds for every input. With a truthy content and \<^verbatim>\<open>null\<close> as the
  \<^verbatim>\<open>options\<close> argument, the destructuring before the \<^verbatim>\<open>try\<close> block throws, and the
  promise \<^verbatim>\<open>rewriteContent\<close> returns is rejected.
\<close>

theorem rewriteContent_throws_on_null_options:
  "\<forall>env this.
     rewriteContent env this (JString ''body{}'') (JString ''text/css'') Options_null
     = Inl (type_error ''Cannot destructure property 'sessionId' of 'options' as it is null.'')"
  by (simp add: rewriteContent_def)

subsection \<open>Rewriting a style sheet\<close>

text \<open>The equation of \<open>replace_all\<close>, on the empty text, on a character and on a match.\<close>

lemma replace_all_Nil:
  "replace_all rx f offset [] =
     (case rx_match rx [] [] [] of None \<Rightarrow> [] | Some (caps, rest) \<Rightarrow> f [] (first_group caps) offset)"
  by (subst replace_all.simps) (simp split: option.splits)

lemma replace_all_Cons:
  "replace_all rx f offset (c # cs) =
     (case rx_match rx (c # cs) [] [] of
        None \<Rightarrow> c # replace_all rx f (Suc offset) cs
      | Some (caps, rest) \<Rightarrow>
          if length (c # cs) - length rest = 0
          then f [] (first_group caps) offset @ c # replace_all rx f (Suc offset) cs
          else f (take (length (c # cs) - length rest) (c # cs)) (first_group caps) offset
               @ replace_all rx f (offset + (length (c # cs) - length rest)) rest)"
  by (subst replace_all.simps) (simp split: option.splits)

lemma replace_all_match:
  assumes "rx_match rx s [] [] = Some (caps, rest)" and "length rest < length s"
  shows "replace_all rx f n s
      = f (take (length s - length rest) s) (first_group caps) n
        @ replace_all rx f (n + (length s - length rest)) rest"
  using assms by (subst replace_all.simps) simp

text \<open>
  One character of a class: it is not empty, a white-space character is taken whatever
  follows it, and a quote is none.
\<close>

lemma take_class_shorter: "take_class c s = Some xs \<Longrightarrow> length xs < length s"
proof (cases c)
  case Space
  assume "take_class c s = Some xs"
  with Space obtain w where w: "find (startsWith s) white_space = Some w"
    and xs: "xs = drop (length w) s"
    by (auto split: option.splits)
  from w have "w \<in> set white_space" and "startsWith s w"
    by (auto simp: find_Some_iff)
  then have "w \<noteq> []" and "s \<noteq> []"
    by (auto simp: white_space_def)
  with xs show ?thesis by simp
qed (auto split: list.splits if_splits)

lemma startsWith_prefix: "startsWith s p \<longleftrightarrow> (\<exists>t. s = p @ t)"
  by (induction s p rule: startsWith.induct) auto

lemma white_space_table:
  "list_all (\<lambda>w. \<forall>t. find (startsWith (w @ t)) white_space = Some w) white_space"
  by (simp add: white_space_def)

lemma white_space_first:
  "w \<in> set white_space \<Longrightarrow> find (startsWith (w @ t)) white_space = Some w"
  using white_space_table by (simp add: list_all_iff)

lemma take_class_Space_char: "w \<in> set white_space \<Longrightarrow> take_class Space (w @ t) = Some t"
  by (simp add: white_space_first)

lemma take_class_SpaceD:
  assumes "take_class Space s = Some r"
  shows "\<exists>w. w \<in> set white_space \<and> s = w @ r"
proof -
  from assms obtain w where w: "find (startsWith s) white_space = Some w"
    and r: "r = drop (length w) s"
    by (auto split: option.splits)
  from w have mem: "w \<in> set white_space" and "startsWith s w"
    by (auto simp: find_Some_iff)
  then obtain t where "s = w @ t" by (auto simp: startsWith_prefix)
  with r mem show ?thesis by auto
qed

lemma quotes_table: "list_all (\<lambda>q. \<forall>t. take_class Space (q # t) = None) quotes"
  by (simp add: quotes_def white_space_def)

lemma take_class_Space_quote:
  "q \<in> set quotes \<Longrightarrow> take_class Space (q # t) = None"
  using quotes_table by (simp add: list_all_iff)

lemma take_class_AnyOfD:
  "take_class (AnyOf cs) s = Some r \<Longrightarrow> \<exists>x. x \<in> set cs \<and> s = x # r"
  by (auto split: list.splits if_splits)

lemma take_class_NoneOfD:
  "take_class (NoneOf cs) s = Some r \<Longrightarrow> \<exists>x. x \<notin> set cs \<and> s = x # r"
  by (auto split: list.splits if_splits)

text \<open>
  The matcher on a run of characters of a class: it accepts a run that ends where the
  class ends and that the rest of the pattern accepts (completeness), and what it accepts
  is such a run (soundness).
\<close>

lemma rx_match_Star_complete:
  assumes "\<forall>x \<in> set characters. \<forall>t. take_class c (x @ t) = Some t"
    and "take_class c rest = None"
    and "rx_match r rest opens caps = Some m"
  shows "rx_match (Star c # r) (concat characters @ rest) opens caps = Some m"
  using assms(1)
proof (induction characters)
  case Nil
  with assms(2,3) show ?case by simp
next
  case (Cons x characters)
  then show ?case by simp
qed

lemma rx_match_Star_sound:
  assumes step: "\<And>s xs. take_class c s = Some xs \<Longrightarrow> \<exists>x. s = x @ xs \<and> P x"
  shows "rx_match (Star c # r) s opens caps = Some m \<Longrightarrow>
    \<exists>characters rest. s = concat characters @ rest \<and> (\<forall>x \<in> set characters. P x)
       \<and> rx_match r rest opens caps = Some m"
proof (induction "length s" arbitrary: s rule: less_induct)
  case less
  show ?case
  proof (cases "take_class c s")
    case None
    with less.prems have "rx_match r s opens caps = Some m" by simp
    then show ?thesis by (intro exI [of _ "[]"] exI [of _ s]) simp
  next
    case (Some xs)
    note taken = this
    from step [OF taken] obtain x where x: "s = x @ xs" "P x" by blast
    have shorter: "length xs < length s" by (rule take_class_shorter [OF taken])
    show ?thesis
    proof (cases "rx_match (Star c # r) xs opens caps")
      case None
      with taken less.prems have "rx_match r s opens caps = Some m" by simp
      then show ?thesis by (intro exI [of _ "[]"] exI [of _ s]) simp
    next
      case (Some m')
      with taken less.prems have "rx_match (Star c # r) xs opens caps = Some m" by simp
      from less.hyps [OF shorter this] obtain characters rest
        where "xs = concat characters @ rest" "\<forall>x \<in> set characters. P x"
          "rx_match r rest opens caps = Some m" by blast
      with x show ?thesis by (intro exI [of _ "x # characters"] exI [of _ rest]) simp
    qed
  qed
qed

lemma rx_match_group_complete:
  assumes "characters \<noteq> []" and "\<forall>x \<in> set characters. x \<noteq> [] \<and> (\<forall>t. take_class c (x @ t) = Some t)"
    and "take_class c rest = None"
    and "rx_match r rest opens (caps @ [concat characters]) = Some m"
  shows "rx_match (Group_open # Plus c # Group_close # r) (concat characters @ rest) opens caps = Some m"
proof -
  from assms(1) obtain x others where c: "characters = x # others" by (cases characters) auto
  have close: "rx_match (Group_close # r) rest ((concat characters @ rest) # opens) caps = Some m"
    using assms(4) by simp
  have "rx_match (Star c # Group_close # r) (concat others @ rest) ((concat characters @ rest) # opens) caps = Some m"
    using assms(2) c by (intro rx_match_Star_complete [OF _ assms(3) close]) simp
  with assms(2) c show ?thesis by simp
qed

lemma rx_match_group_sound:
  assumes step: "\<And>s xs. take_class c s = Some xs \<Longrightarrow> \<exists>x. s = x @ xs \<and> P x"
    and "rx_match (Group_open # Plus c # Group_close # r) s opens caps = Some m"
  shows "\<exists>characters rest. characters \<noteq> [] \<and> s = concat characters @ rest \<and> (\<forall>x \<in> set characters. P x)
       \<and> rx_match r rest opens (caps @ [concat characters]) = Some m"
proof -
  from assms(2) obtain xs where taken: "take_class c s = Some xs"
    and star: "rx_match (Star c # Group_close # r) xs (s # opens) caps = Some m"
    by (auto split: option.splits)
  from step [OF taken] obtain x where x: "s = x @ xs" "P x" by blast
  from rx_match_Star_sound [of c P, OF step star] obtain characters rest
    where run: "xs = concat characters @ rest" "\<forall>x \<in> set characters. P x"
      and close: "rx_match (Group_close # r) rest (s # opens) caps = Some m" by blast
  from x run have "take (length s - length rest) s = concat (x # characters)" by simp
  with close have "rx_match r rest opens (caps @ [concat (x # characters)]) = Some m" by simp
  with x run show ?thesis
    by (intro exI [of _ "x # characters"] exI [of _ rest]) simp
qed

lemma rx_match_Opt_sound:
  "rx_match (Opt c # r) s opens caps = Some m \<Longrightarrow>
   rx_match r s opens caps = Some m \<or> (\<exists>xs. take_class c s = Some xs \<and> rx_match r xs opens caps = Some m)"
  by (auto split: option.splits)

lemma concat_singletons:
  assumes "\<forall>x \<in> set characters. \<exists>y. x = [y] \<and> y \<notin> set cs"
  shows "set (concat characters) \<inter> set cs = {}"
  using assms by (induction characters) auto

lemma singletons_concat: "concat (map (\<lambda>y. [y]) u) = u"
  by (induction u) auto


lemma rx_match_Plus_complete:
  assumes "characters \<noteq> []" and "\<forall>x \<in> set characters. \<forall>t. take_class c (x @ t) = Some t"
    and "take_class c rest = None"
    and "rx_match r rest opens caps = Some m"
  shows "rx_match (Plus c # r) (concat characters @ rest) opens caps = Some m"
proof -
  from assms(1) obtain x others where c: "characters = x # others" by (cases characters) auto
  have "rx_match (Star c # r) (concat others @ rest) opens caps = Some m"
    using assms(2) c by (intro rx_match_Star_complete [OF _ assms(3,4)]) simp
  with assms(2) c show ?thesis by simp
qed

lemma rx_match_Plus_sound:
  assumes step: "\<And>s xs. take_class c s = Some xs \<Longrightarrow> \<exists>x. s = x @ xs \<and> P x"
    and "rx_match (Plus c # r) s opens caps = Some m"
  shows "\<exists>characters rest. characters \<noteq> [] \<and> s = concat characters @ rest \<and> (\<forall>x \<in> set characters. P x)
       \<and> rx_match r rest opens caps = Some m"
proof -
  from assms(2) obtain xs where taken: "take_class c s = Some xs"
    and star: "rx_match (Star c # r) xs opens caps = Some m"
    by (auto split: option.splits)
  from step [OF taken] obtain x where x: "s = x @ xs" "P x" by blast
  from rx_match_Star_sound [of c P, OF step star] obtain characters rest
    where run: "xs = concat characters @ rest" "\<forall>x \<in> set characters. P x"
      and "rx_match r rest opens caps = Some m" by blast
  with x show ?thesis
    by (intro exI [of _ "x # characters"] exI [of _ rest]) simp
qed

lemma rx_match_Lit_end:
  "rx_match [Lit l] s opens caps = Some (caps', rest) \<Longrightarrow> s = l @ rest \<and> caps' = caps"
  by (auto simp: startsWith_prefix split: if_splits)

lemma rx_match_One_end:
  "rx_match [One (AnyOf cs)] s opens caps = Some (caps', rest) \<Longrightarrow>
   \<exists>q. q \<in> set cs \<and> s = q # rest \<and> caps' = caps"
  by (auto split: option.splits list.splits if_splits)

lemma singletons_nonempty:
  assumes "characters \<noteq> []" and "\<forall>x \<in> set characters. \<exists>y. x = [y] \<and> y \<notin> set cs"
  shows "concat characters \<noteq> []"
  using assms by (cases characters) auto

text \<open>
  The two patterns of \<^verbatim>\<open>rewriteCSS\<close> match the references and the \<^verbatim>\<open>@import\<close>s, with the URL
  as the group, and nothing else.
\<close>

lemma url_pattern_complete:
  assumes "url_reference m u"
  shows "m \<noteq> [] \<and> rx_match url_pattern (m @ rest) [] [] = Some ([u], rest)"
proof -
  let ?cls = "NoneOf (quotes @ '')'')"
  let ?tail = "[Opt (AnyOf quotes), Lit '')'']"
  let ?characters = "map (\<lambda>y. [y]) u"
  from assms obtain q1 q2 where q1: "q1 \<in> {[], [CHR 0x27], [CHR 0x22]}"
    and q2: "q2 \<in> {[], [CHR 0x27], [CHR 0x22]}"
    and u: "u \<noteq> []" "set u \<inter> set (quotes @ '')'') = {}"
    and m: "m = ''url('' @ q1 @ u @ q2 @ '')''"
    unfolding url_reference_def by blast
  have tail: "rx_match ?tail (q2 @ '')'' @ rest) [] ([] @ [concat ?characters]) = Some ([u], rest)"
    using q2 by (auto simp: quotes_def singletons_concat)
  have stop: "take_class ?cls (q2 @ '')'' @ rest) = None"
    using q2 by (auto simp: quotes_def)
  have inside: "\<forall>x \<in> set ?characters. x \<noteq> [] \<and> (\<forall>t. take_class ?cls (x @ t) = Some t)"
    using u(2) by auto
  have "rx_match (Group_open # Plus ?cls # Group_close # ?tail)
      (concat ?characters @ q2 @ '')'' @ rest) [] [] = Some ([u], rest)"
    using u(1) by (intro rx_match_group_complete [OF _ inside stop tail]) simp
  then have group: "rx_match (Group_open # Plus ?cls # Group_close # ?tail)
      (u @ q2 @ '')'' @ rest) [] [] = Some ([u], rest)"
    by (simp only: singletons_concat)
  obtain x u' where ux: "u = x # u'" using u(1) by (cases u) auto
  then have "x \<notin> set quotes" using u(2) by auto
  then have "rx_match (Opt (AnyOf quotes) # Group_open # Plus ?cls # Group_close # ?tail)
      (q1 @ u @ q2 @ '')'' @ rest) [] [] = Some ([u], rest)"
    using q1 group ux by (auto simp: quotes_def)
  with m show ?thesis by (simp add: url_pattern_def)
qed

lemma url_pattern_sound:
  assumes "rx_match url_pattern s [] [] = Some (caps, rest)"
  shows "\<exists>m u. url_reference m u \<and> s = m @ rest \<and> caps = [u]"
proof -
  let ?cls = "NoneOf (quotes @ '')'')"
  let ?P = "\<lambda>x. \<exists>y. x = [y] \<and> y \<notin> set (quotes @ '')'')"
  let ?tail = "[Opt (AnyOf quotes), Lit '')'']"
  let ?group = "Group_open # Plus ?cls # Group_close # ?tail"
  have step: "\<exists>x. s = x @ xs \<and> ?P x" if "take_class ?cls s = Some xs" for s xs
    using take_class_NoneOfD [OF that] by auto
  have unfolded: "rx_match url_pattern s [] [] =
      (if startsWith s ''url(''
       then rx_match (Opt (AnyOf quotes) # ?group) (drop (length ''url('') s) [] [] else None)"
    by (simp only: url_pattern_def rx_match.simps(2))
  have sw: "startsWith s ''url(''"
  proof (rule ccontr)
    assume "\<not> startsWith s ''url(''"
    with unfolded have "rx_match url_pattern s [] [] = None" by (simp only: if_False)
    with assms show False by simp
  qed
  from sw obtain s1 where s: "s = ''url('' @ s1" by (auto simp: startsWith_prefix)
  then have dropped: "drop (length ''url('') s = s1" by simp
  from assms sw have opt1: "rx_match (Opt (AnyOf quotes) # ?group) s1 [] [] = Some (caps, rest)"
    unfolding unfolded dropped by (simp only: if_True)
  from rx_match_Opt_sound [OF opt1]
  have "\<exists>q1 s2. q1 \<in> {[], [CHR 0x27], [CHR 0x22]} \<and> s1 = q1 @ s2
      \<and> rx_match ?group s2 [] [] = Some (caps, rest)"
  proof
    assume "rx_match ?group s1 [] [] = Some (caps, rest)"
    then show ?thesis by (intro exI [of _ "[]"] exI [of _ s1]) simp
  next
    assume "\<exists>xs. take_class (AnyOf quotes) s1 = Some xs \<and> rx_match ?group xs [] [] = Some (caps, rest)"
    then obtain xs where t: "take_class (AnyOf quotes) s1 = Some xs"
      and g: "rx_match ?group xs [] [] = Some (caps, rest)" by blast
    from take_class_AnyOfD [OF t] obtain x where "x \<in> set quotes" "s1 = x # xs" by blast
    with g show ?thesis by (intro exI [of _ "[x]"] exI [of _ xs]) (auto simp: quotes_def)
  qed
  then obtain q1 s2 where q1: "q1 \<in> {[], [CHR 0x27], [CHR 0x22]}" and s1: "s1 = q1 @ s2"
    and group: "rx_match ?group s2 [] [] = Some (caps, rest)" by blast
  from rx_match_group_sound [of ?cls ?P, OF step group] obtain characters s3
    where c: "characters \<noteq> []" "\<forall>x \<in> set characters. ?P x"
      and s2: "s2 = concat characters @ s3"
      and tail: "rx_match ?tail s3 [] ([] @ [concat characters]) = Some (caps, rest)" by blast
  let ?u = "concat characters"
  have u: "?u \<noteq> []" "set ?u \<inter> set (quotes @ '')'') = {}"
    using singletons_nonempty [OF c] concat_singletons [OF c(2)] by simp_all
  from rx_match_Opt_sound [OF tail]
  have "\<exists>q2. q2 \<in> {[], [CHR 0x27], [CHR 0x22]} \<and> s3 = q2 @ '')'' @ rest \<and> caps = [?u]"
  proof
    assume "rx_match [Lit '')''] s3 [] ([] @ [?u]) = Some (caps, rest)"
    from rx_match_Lit_end [OF this] show ?thesis by (intro exI [of _ "[]"]) simp
  next
    assume "\<exists>xs. take_class (AnyOf quotes) s3 = Some xs
        \<and> rx_match [Lit '')''] xs [] ([] @ [?u]) = Some (caps, rest)"
    then obtain xs where t: "take_class (AnyOf quotes) s3 = Some xs"
      and l: "rx_match [Lit '')''] xs [] ([] @ [?u]) = Some (caps, rest)" by blast
    from take_class_AnyOfD [OF t] obtain x where "x \<in> set quotes" "s3 = x # xs" by blast
    with rx_match_Lit_end [OF l] show ?thesis
      by (intro exI [of _ "[x]"]) (auto simp: quotes_def)
  qed
  then obtain q2 where q2: "q2 \<in> {[], [CHR 0x27], [CHR 0x22]}" and s3: "s3 = q2 @ '')'' @ rest"
    and caps: "caps = [?u]" by blast
  have "url_reference (''url('' @ q1 @ ?u @ q2 @ '')'') ?u"
    unfolding url_reference_def using q1 q2 u by blast
  moreover have "s = (''url('' @ q1 @ ?u @ q2 @ '')'') @ rest"
    using s s1 s2 s3 by simp
  ultimately show ?thesis using caps by blast
qed

lemma import_pattern_complete:
  assumes "import_rule m u"
  shows "m \<noteq> [] \<and> rx_match import_pattern (m @ rest) [] [] = Some ([u], rest)"
proof -
  let ?cls = "NoneOf quotes"
  let ?characters = "map (\<lambda>y. [y]) u"
  let ?group = "[Group_open, Plus ?cls, Group_close, One (AnyOf quotes)]"
  from assms obtain ws q1 q2 where ws: "white_space_run ws"
    and q: "q1 \<in> set quotes" "q2 \<in> set quotes"
    and u: "u \<noteq> []" "set u \<inter> set quotes = {}"
    and m: "m = ''@import'' @ ws @ [q1] @ u @ [q2]"
    unfolding import_rule_def by blast
  from ws obtain spaces where sp: "spaces \<noteq> []" "set spaces \<subseteq> set white_space"
    "ws = concat spaces"
    unfolding white_space_run_def by blast
  have tail: "rx_match [One (AnyOf quotes)] (q2 # rest) [] ([] @ [concat ?characters]) = Some ([u], rest)"
    using q(2) by (simp add: singletons_concat)
  have stop: "take_class ?cls (q2 # rest) = None"
    using q(2) by simp
  have inside: "\<forall>x \<in> set ?characters. x \<noteq> [] \<and> (\<forall>t. take_class ?cls (x @ t) = Some t)"
    using u(2) by auto
  have "rx_match ?group (concat ?characters @ q2 # rest) [] [] = Some ([u], rest)"
    using u(1) by (intro rx_match_group_complete [OF _ inside stop tail]) simp
  then have "rx_match ?group (u @ q2 # rest) [] [] = Some ([u], rest)"
    by (simp only: singletons_concat)
  then have quote: "rx_match (One (AnyOf quotes) # ?group) (q1 # u @ q2 # rest) [] [] = Some ([u], rest)"
    using q(1) by simp
  have white: "\<forall>x \<in> set spaces. \<forall>t. take_class Space (x @ t) = Some t"
    using sp(2) take_class_Space_char by blast
  have "rx_match (Plus Space # One (AnyOf quotes) # ?group) (concat spaces @ q1 # u @ q2 # rest) [] []
      = Some ([u], rest)"
    by (rule rx_match_Plus_complete [OF sp(1) white take_class_Space_quote [OF q(1)] quote])
  with m sp(3) show ?thesis by (simp add: import_pattern_def)
qed

lemma import_pattern_sound:
  assumes "rx_match import_pattern s [] [] = Some (caps, rest)"
  shows "\<exists>m u. import_rule m u \<and> s = m @ rest \<and> caps = [u]"
proof -
  let ?cls = "NoneOf quotes"
  let ?P = "\<lambda>x. \<exists>y. x = [y] \<and> y \<notin> set quotes"
  let ?W = "\<lambda>x. x \<in> set white_space"
  let ?group = "[Group_open, Plus ?cls, Group_close, One (AnyOf quotes)]"
  have step: "\<exists>x. s = x @ xs \<and> ?P x" if "take_class ?cls s = Some xs" for s xs
    using take_class_NoneOfD [OF that] by auto
  have wstep: "\<exists>x. s = x @ xs \<and> ?W x" if "take_class Space s = Some xs" for s xs
    using take_class_SpaceD [OF that] by auto
  have unfolded: "rx_match import_pattern s [] [] =
      (if startsWith s ''@import''
       then rx_match (Plus Space # One (AnyOf quotes) # ?group) (drop (length ''@import'') s) [] []
       else None)"
    by (simp only: import_pattern_def rx_match.simps(2))
  have sw: "startsWith s ''@import''"
  proof (rule ccontr)
    assume "\<not> startsWith s ''@import''"
    with unfolded have "rx_match import_pattern s [] [] = None" by (simp only: if_False)
    with assms show False by simp
  qed
  from sw obtain s1 where s: "s = ''@import'' @ s1" by (auto simp: startsWith_prefix)
  then have dropped: "drop (length ''@import'') s = s1" by simp
  from assms sw
  have plus1: "rx_match (Plus Space # One (AnyOf quotes) # ?group) s1 [] [] = Some (caps, rest)"
    unfolding unfolded dropped by (simp only: if_True)
  from rx_match_Plus_sound [of Space ?W, OF wstep plus1] obtain spaces s2
    where sp: "spaces \<noteq> []" "\<forall>x \<in> set spaces. ?W x" and s1: "s1 = concat spaces @ s2"
      and one: "rx_match (One (AnyOf quotes) # ?group) s2 [] [] = Some (caps, rest)" by blast
  from one obtain s3 where t: "take_class (AnyOf quotes) s2 = Some s3"
    and group: "rx_match ?group s3 [] [] = Some (caps, rest)"
    by (auto split: option.splits)
  from take_class_AnyOfD [OF t] obtain q1 where q1: "q1 \<in> set quotes" and s2: "s2 = q1 # s3"
    by blast
  from rx_match_group_sound [of ?cls ?P, OF step group] obtain characters s4
    where c: "characters \<noteq> []" "\<forall>x \<in> set characters. ?P x"
      and s3: "s3 = concat characters @ s4"
      and tail: "rx_match [One (AnyOf quotes)] s4 [] ([] @ [concat characters]) = Some (caps, rest)"
    by blast
  let ?u = "concat characters"
  have u: "?u \<noteq> []" "set ?u \<inter> set quotes = {}"
    using singletons_nonempty [OF c] concat_singletons [OF c(2)] by simp_all
  from rx_match_One_end [OF tail] obtain q2 where q2: "q2 \<in> set quotes" and s4: "s4 = q2 # rest"
    and caps: "caps = [?u]" by auto
  have "white_space_run (concat spaces)"
    unfolding white_space_run_def using sp by blast
  then have "import_rule (''@import'' @ concat spaces @ [q1] @ ?u @ [q2]) ?u"
    unfolding import_rule_def using q1 q2 u by blast
  moreover have "s = (''@import'' @ concat spaces @ [q1] @ ?u @ [q2]) @ rest"
    using s s1 s2 s3 s4 by simp
  ultimately show ?thesis using caps by blast
qed

text \<open>
  The replacement with a pattern that matches the texts \<open>M\<close>, and a callback that writes
  \<open>R\<close> of the group, is \<open>replaced M R\<close>.
\<close>

lemma replace_all_replaced:
  assumes complete: "\<And>m u rest. M m u \<Longrightarrow> m \<noteq> [] \<and> rx_match rx (m @ rest) [] [] = Some ([u], rest)"
    and sound: "\<And>s caps rest. rx_match rx s [] [] = Some (caps, rest) \<Longrightarrow>
        \<exists>m u. M m u \<and> s = m @ rest \<and> caps = [u]"
    and f: "\<And>m u n. f m (JString u) n = R u"
  shows "replaced M R s out \<longleftrightarrow> out = replace_all rx f n s"
proof
  have none: "rx_match rx s [] [] = None" if "\<not> begins M s" for s
  proof (cases "rx_match rx s [] []")
    case (Some result)
    obtain caps rest where "result = (caps, rest)" by (cases result)
    with Some sound [of s caps rest] that show ?thesis unfolding begins_def by blast
  qed simp
  show "out = replace_all rx f n s" if "replaced M R s out"
    using that
  proof (induction arbitrary: n)
    case replaced_end
    have "\<not> begins M []" unfolding begins_def using complete by auto
    from none [OF this] show ?case by (simp add: replace_all_Nil)
  next
    case (replaced_copy c cs out)
    from none [OF replaced_copy.hyps(1)] replaced_copy.IH [of "Suc n"]
    show ?case by (simp add: replace_all_Cons)
  next
    case (replaced_match m u rest out)
    from complete [OF replaced_match.hyps(1), of rest]
    have m: "m \<noteq> []" and r: "rx_match rx (m @ rest) [] [] = Some ([u], rest)" by simp_all
    from m have "length rest < length (m @ rest)" by simp
    from replace_all_match [OF r this, of f n] replaced_match.IH [of "n + length m"] f
    show ?case by simp
  qed
next
  have "replaced M R s (replace_all rx f n s)" for n
  proof (induction "length s" arbitrary: s n rule: less_induct)
    case less
    show ?case
    proof (cases "rx_match rx s [] []")
      case None
      have nb: "\<not> begins M s"
        unfolding begins_def using complete None by fastforce
      show ?thesis
      proof (cases s)
        case Nil
        with None show ?thesis by (simp add: replace_all_Nil replaced_end)
      next
        case (Cons c cs)
        with less [of cs "Suc n"] have "replaced M R cs (replace_all rx f (Suc n) cs)" by simp
        with nb Cons None show ?thesis
          by (simp add: replace_all_Cons replaced_copy)
      qed
    next
      case (Some result)
      obtain caps rest where res: "result = (caps, rest)" by (cases result)
      with Some have r: "rx_match rx s [] [] = Some (caps, rest)" by simp
      from sound [OF r] obtain m u where mu: "M m u" "s = m @ rest" "caps = [u]" by blast
      from complete [OF mu(1), of rest] have m: "m \<noteq> []" by simp
      with mu(2) have shorter: "length rest < length s" by simp
      from less [OF shorter, of "n + (length s - length rest)"]
      have "replaced M R (m @ rest) (R u @ replace_all rx f (n + (length s - length rest)) rest)"
        by (rule replaced_match [of M m u R, OF mu(1)])
      with replace_all_match [OF r shorter, of f n] mu f show ?thesis by simp
    qed
  qed
  then show "replaced M R s out" if "out = replace_all rx f n s"
    using that by simp
qed

text \<open>
  Claim C6, as the code has it. For every style sheet \<^verbatim>\<open>rewriteCSS\<close> returns a string, and the
  string is the sheet after two replacements, the second on the result of the first. The
  first replaces every \<^verbatim>\<open>url(...)\<close> reference (\<^verbatim>\<open>url(\<close>, a quote or nothing, a URL free of
  quotes and closing parentheses, a quote or nothing, \<^verbatim>\<open>)\<close>) by \<^verbatim>\<open>url('...')\<close>; the second
  replaces every \<^verbatim>\<open>@import\<close> that is followed by white space and a quoted URL by
  \<^verbatim>\<open>@import '...'\<close>. Each time the URL written is the one that \<^verbatim>\<open>rewriteURL\<close> returns, and it
  is written between single quotes whatever the quoting was. The replacements go from left
  to right, and the text in which no reference begins is copied.

  The example of the specification, \<^verbatim>\<open>body{background:url(/bg.png)}\<close> with target
  \<^verbatim>\<open>https://a.com/page\<close>, proxy URL \<^verbatim>\<open>http://p\<close> and an empty block list, yields the gateway
  path \<^verbatim>\<open>/api/gateway\<close>, single-quoted, on every platform whose \<^verbatim>\<open>URL\<close> reads the target as
  \<^verbatim>\<open>https:\<close> and \<^verbatim>\<open>a.com\<close> and accepts \<^verbatim>\<open>https://a.com/bg.png\<close>.
\<close>

theorem rewriteCSS_replaces_every_match:
  "(\<exists>returned. rewriteCSS env this (JString css) options = Inr (JString returned))
   \<and> (rewriteCSS env this (JString css) options = Inr (JString result)
      \<longleftrightarrow> (\<exists>css1. replaced url_reference (url_replacement env this options) css css1
            \<and> replaced import_rule (import_replacement env this options) css1 result))
   \<and> (proxyUrl this = ''http://p'' \<and> blockedDomains this = []
        \<and> targetUrl options = Some ''https://a.com/page''
        \<and> URL_parse env ''https://a.com/page'' = Some base
        \<and> protocol base = ''https:'' \<and> host base = ''a.com''
        \<and> URL_parse env ''https://a.com/bg.png'' = Some parsed
      \<longrightarrow> rewriteCSS env this (JString ''body{background:url(/bg.png)}'') options
          = Inr (JString
              ''body{background:url('http://p/api/gateway?url=https%3A%2F%2Fa.com%2Fbg.png')}''))"
proof (intro conjI)
  show "\<exists>returned. rewriteCSS env this (JString css) options = Inr (JString returned)"
    by (simp add: rewriteCSS_def Let_def)
next
  let ?f = "\<lambda>(match :: string) url (offset :: nat).
      ''url('' @ [CHR 0x27] @ to_string (rewriteURL env this url (targetUrl options)) @ [CHR 0x27] @ '')''"
  let ?g = "\<lambda>(match :: string) url (offset :: nat).
      ''@import '' @ [CHR 0x27] @ to_string (rewriteURL env this url (targetUrl options)) @ [CHR 0x27]"
  have first: "replaced url_reference (url_replacement env this options) s out
      \<longleftrightarrow> out = replace_all url_pattern ?f 0 s" for s out
    by (rule replace_all_replaced [OF url_pattern_complete url_pattern_sound])
       (simp_all add: url_replacement_def)
  have second: "replaced import_rule (import_replacement env this options) s out
      \<longleftrightarrow> out = replace_all import_pattern ?g 0 s" for s out
    by (rule replace_all_replaced [OF import_pattern_complete import_pattern_sound])
       (simp_all add: import_replacement_def)
  show "rewriteCSS env this (JString css) options = Inr (JString result)
      \<longleftrightarrow> (\<exists>css1. replaced url_reference (url_replacement env this options) css css1
            \<and> replaced import_rule (import_replacement env this options) css1 result)"
    by (auto simp: rewriteCSS_def first second Let_def)
next
  show "proxyUrl this = ''http://p'' \<and> blockedDomains this = []
        \<and> targetUrl options = Some ''https://a.com/page''
        \<and> URL_parse env ''https://a.com/page'' = Some base
        \<and> protocol base = ''https:'' \<and> host base = ''a.com''
        \<and> URL_parse env ''https://a.com/bg.png'' = Some parsed
      \<longrightarrow> rewriteCSS env this (JString ''body{background:url(/bg.png)}'') options
          = Inr (JString
              ''body{background:url('http://p/api/gateway?url=https%3A%2F%2Fa.com%2Fbg.png')}'')"
    by (simp add: rewriteCSS_def replace_all_Nil replace_all_Cons url_pattern_def import_pattern_def
        quotes_def rewriteURL_def resolve_relative_def to_gateway_def Let_def
        encodeURIComponent_def uriUnreserved_def percent_byte_def)
qed

text \<open>
  A sheet with an \<^verbatim>\<open>@media\<close> rule, an \<^verbatim>\<open>rgb(...)\<close> colour, an \<^verbatim>\<open>@import\<close> whose white space is a
  no-break space, a double-quoted reference with an \<^verbatim>\<open>@\<close> in its URL and an unquoted
  reference; and the example of the specification.
\<close>

theorem rewriteCSS_replaces_every_match_witness:
  "\<forall>env.
     (\<exists>css1.
        replaced url_reference
          (url_replacement (env\<lparr>URL_parse := simple_URL\<rparr>)
             \<lparr>proxyUrl = ''http://p'', enableMinification = False, blockedDomains = []\<rparr>
             \<lparr>sessionId = None, targetUrl = Some ''https://a.com/page''\<rparr>)
          (''@media print{a{color:rgb(1,2,3)}}@import'' @ [CHR 0xC2, CHR 0xA0, CHR 0x22]
             @ ''/t.css'' @ [CHR 0x22] @ '';b{background:url('' @ [CHR 0x22] @ ''logo@2x.png''
             @ [CHR 0x22] @ '')}c{background:url(/bg.png)}'')
          css1
        \<and> replaced import_rule
          (import_replacement (env\<lparr>URL_parse := simple_URL\<rparr>)
             \<lparr>proxyUrl = ''http://p'', enableMinification = False, blockedDomains = []\<rparr>
             \<lparr>sessionId = None, targetUrl = Some ''https://a.com/page''\<rparr>)
          css1
          (''@media print{a{color:rgb(1,2,3)}}''
             @ ''@import 'http://p/api/gateway?url=https%3A%2F%2Fa.com%2Ft.css';''
             @ ''b{background:url('logo@2x.png')}''
             @ ''c{background:url('http://p/api/gateway?url=https%3A%2F%2Fa.com%2Fbg.png')}''))
   \<and> rewriteCSS (env\<lparr>URL_parse := simple_URL\<rparr>)
       \<lparr>proxyUrl = ''http://p'', enableMinification = False, blockedDomains = []\<rparr>
       (JString ''body{background:url(/bg.png)}'')
       \<lparr>sessionId = None, targetUrl = Some ''https://a.com/page''\<rparr>
     = Inr (JString ''body{background:url('http://p/api/gateway?url=https%3A%2F%2Fa.com%2Fbg.png')}'')"
proof (rule allI, rule conjI)
  fix env :: platform
  let ?env = "env\<lparr>URL_parse := simple_URL\<rparr>"
  let ?rw = "\<lparr>proxyUrl = ''http://p'', enableMinification = False, blockedDomains = []\<rparr>"
  let ?o = "\<lparr>sessionId = None, targetUrl = Some ''https://a.com/page''\<rparr>"
  let ?css = "''@media print{a{color:rgb(1,2,3)}}@import'' @ [CHR 0xC2, CHR 0xA0, CHR 0x22]
             @ ''/t.css'' @ [CHR 0x22] @ '';b{background:url('' @ [CHR 0x22] @ ''logo@2x.png''
             @ [CHR 0x22] @ '')}c{background:url(/bg.png)}''"
  let ?result = "''@media print{a{color:rgb(1,2,3)}}''
             @ ''@import 'http://p/api/gateway?url=https%3A%2F%2Fa.com%2Ft.css';''
             @ ''b{background:url('logo@2x.png')}''
             @ ''c{background:url('http://p/api/gateway?url=https%3A%2F%2Fa.com%2Fbg.png')}''"
  have "rewriteCSS ?env ?rw (JString ?css) ?o = Inr (JString ?result)"
    by (simp add: rewriteCSS_def replace_all_Nil replace_all_Cons url_pattern_def import_pattern_def
        quotes_def white_space_def rewriteURL_def resolve_relative_def to_gateway_def simple_URL_def
        Let_def encodeURIComponent_def uriUnreserved_def percent_byte_def)
  with rewriteCSS_replaces_every_match [of ?env ?rw ?css ?o ?result]
  show "\<exists>css1. replaced url_reference (url_replacement ?env ?rw ?o) ?css css1
      \<and> replaced import_rule (import_replacement ?env ?rw ?o) css1 ?result"
    by blast
  have "simple_URL ''https://a.com/page''
      = Some \<lparr>protocol = ''https:'', host = ''a.com'', hostname = ''a.com'',
               href = ''https://a.com/page''\<rparr>"
    and "simple_URL ''https://a.com/bg.png''
      = Some \<lparr>protocol = ''https:'', host = ''a.com'', hostname = ''a.com'',
               href = ''https://a.com/bg.png''\<rparr>"
    by (simp_all add: simple_URL_def Let_def)
  with rewriteCSS_replaces_every_match [of ?env ?rw "[]" ?o "[]"
      "\<lparr>protocol = ''https:'', host = ''a.com'', hostname = ''a.com'', href = ''https://a.com/page''\<rparr>"
      "\<lparr>protocol = ''https:'', host = ''a.com'', hostname = ''a.com'', href = ''https://a.com/bg.png''\<rparr>"]
  show "rewriteCSS ?env ?rw (JString ''body{background:url(/bg.png)}'') ?o
     = Inr (JString ''body{background:url('http://p/api/gateway?url=https%3A%2F%2Fa.com%2Fbg.png')}'')"
    by simp
qed

text \<open>
  Claim C6 as stated says that the quoting style is preserved, that the example yields
  \<^verbatim>\<open>http://p/gateway?url=...\<close> for proxy base \<^verbatim>\<open>http://p\<close>, and that every \<^verbatim>\<open>url(...)\<close> reference
  and every \<^verbatim>\<open>@import\<close> target is rewritten. The example yields the path \<^verbatim>\<open>/api/gateway\<close>, and
  its unquoted reference comes out single-quoted, as a double-quoted one does. A reference
  with white space between the parenthesis and the quote is not rewritten, and neither is
  an \<^verbatim>\<open>@import\<close> with no white space before the quote.
\<close>

theorem rewriteCSS_spec_example_differs:
  "\<forall>env.
     rewriteCSS (env\<lparr>URL_parse := simple_URL\<rparr>)
       \<lparr>proxyUrl = ''http://p'', enableMinification = False, blockedDomains = []\<rparr>
       (JString ''body{background:url(/bg.png)}'')
       \<lparr>sessionId = None, targetUrl = Some ''https://a.com/page''\<rparr>
     = Inr (JString ''body{background:url('http://p/api/gateway?url=https%3A%2F%2Fa.com%2Fbg.png')}'')
   \<and> rewriteCSS (env\<lparr>URL_parse := simple_URL\<rparr>)
       \<lparr>proxyUrl = ''http://p'', enableMinification = False, blockedDomains = []\<rparr>
       (JString ''body{background:url(/bg.png)}'')
       \<lparr>sessionId = None, targetUrl = Some ''https://a.com/page''\<rparr>
     \<noteq> Inr (JString ''body{background:url('http://p/gateway?url=https%3A%2F%2Fa.com%2Fbg.png')}'')
   \<and> rewriteCSS (env\<lparr>URL_parse := simple_URL\<rparr>)
       \<lparr>proxyUrl = ''http://p'', enableMinification = False, blockedDomains = []\<rparr>
       (JString (''a{b:url('' @ [CHR 0x22] @ ''x.png'' @ [CHR 0x22] @ '')}''))
       \<lparr>sessionId = None, targetUrl = Some ''https://a.com/page''\<rparr>
     = Inr (JString ''a{b:url('x.png')}'')
   \<and> rewriteCSS (env\<lparr>URL_parse := simple_URL\<rparr>)
       \<lparr>proxyUrl = ''http://p'', enableMinification = False, blockedDomains = []\<rparr>
       (JString (''a{b:url( '' @ [CHR 0x22] @ ''/x.png'' @ [CHR 0x22] @ '' )}''))
       \<lparr>sessionId = None, targetUrl = Some ''https://a.com/page''\<rparr>
     = Inr (JString (''a{b:url( '' @ [CHR 0x22] @ ''/x.png'' @ [CHR 0x22] @ '' )}''))
   \<and> rewriteCSS (env\<lparr>URL_parse := simple_URL\<rparr>)
       \<lparr>proxyUrl = ''http://p'', enableMinification = False, blockedDomains = []\<rparr>
       (JString (''@import'' @ [CHR 0x22] @ ''/t.css'' @ [CHR 0x22] @ '';''))
       \<lparr>sessionId = None, targetUrl = Some ''https://a.com/page''\<rparr>
     = Inr (JString (''@import'' @ [CHR 0x22] @ ''/t.css'' @ [CHR 0x22] @ '';''))"
  by (simp add: rewriteCSS_def replace_all_Nil replace_all_Cons url_pattern_def import_pattern_def
      quotes_def white_space_def rewriteURL_def resolve_relative_def to_gateway_def simple_URL_def
      Let_def encodeURIComponent_def uriUnreserved_def percent_byte_def)

end
